theory Spec2Isabelle
  imports Complex_Main "HOL-Library.Signed_Division"
begin

section \<open>Single-precision arithmetic\<close>

text \<open>
  The program computes with C++ \<^verbatim>\<open>float\<close>. A finite binary32 value is a real number, so
  the carrier is \<open>real\<close> and comparisons are the comparisons of the reals. Every arithmetic
  operation and every conversion rounds its exact result to the nearest binary32 value,
  ties to even (one rounding per operation, no contraction, no excess precision).
  \<open>expo x\<close> is the binary exponent of a positive \<open>x\<close> (\<open>2 powi expo x \<le> x < 2 powi (expo x + 1)\<close>),
  \<open>grid x\<close> the exponent of the unit in the last place of the binary32 values around \<open>x\<close>
  (24 significant bits, smallest exponent \<open>-126\<close>, below which the values are subnormal),
  and \<open>rnd x\<close> the multiple of that unit nearest to \<open>x\<close>. Infinities and NaN are not
  modelled: every value of the program is a pixel coordinate, a clock reading in seconds
  or an angle, far from \<open>2 ^ 128\<close>, every divisor is at least 1 and every square root is that
  of a sum of two squares.
\<close>

type_synonym float = real

function expo :: "real \<Rightarrow> int" where
  "expo x =
     (if x \<le> 0 then 0
      else if 2 \<le> x then expo (x / 2) + 1
      else if x < 1 then expo (x * 2) - 1
      else 0)"
  by pat_completeness auto
termination
proof (relation "measure (\<lambda>x. if 1 \<le> x then nat \<lfloor>x\<rfloor> else nat \<lceil>1 / x\<rceil> + 1)")
  show "wf (measure (\<lambda>x::real. if 1 \<le> x then nat \<lfloor>x\<rfloor> else nat \<lceil>1 / x\<rceil> + 1))" by simp
next
  fix x :: real
  assume x: "\<not> x \<le> 0" "2 \<le> x"
  have "x / 2 < of_int \<lfloor>x\<rfloor>" using x by linarith
  then have "\<lfloor>x / 2\<rfloor> < \<lfloor>x\<rfloor>" by (simp add: floor_less_iff)
  moreover have "0 < \<lfloor>x\<rfloor>" using x by simp
  ultimately show "(x / 2, x) \<in> measure (\<lambda>x. if 1 \<le> x then nat \<lfloor>x\<rfloor> else nat \<lceil>1 / x\<rceil> + 1)"
    using x by simp
next
  fix x :: real
  assume x: "\<not> x \<le> 0" "\<not> 2 \<le> x" "x < 1"
  then have y: "1 < 1 / x" by simp
  then have "1 < \<lceil>1 / x\<rceil>" by (simp add: less_ceiling_iff)
  then have c2: "2 \<le> \<lceil>1 / x\<rceil>" by simp
  show "(x * 2, x) \<in> measure (\<lambda>x. if 1 \<le> x then nat \<lfloor>x\<rfloor> else nat \<lceil>1 / x\<rceil> + 1)"
  proof (cases "1 \<le> x * 2")
    case True
    have "\<lfloor>x * 2\<rfloor> \<le> 1" using x by (simp add: floor_le_iff)
    then have "nat \<lfloor>x * 2\<rfloor> \<le> 1" by linarith
    moreover have "2 \<le> nat \<lceil>1 / x\<rceil>" using c2 by linarith
    ultimately have "nat \<lfloor>x * 2\<rfloor> < nat \<lceil>1 / x\<rceil> + 1" by linarith
    with True x show ?thesis by simp
  next
    case False
    define y where "y = 1 / x"
    have "(2::real) \<le> of_int \<lceil>y\<rceil>" using c2 by (simp add: y_def)
    then have "y / 2 \<le> of_int \<lceil>y\<rceil> - 1"
      using le_of_int_ceiling [of y] by linarith
    then have "1 / x / 2 \<le> of_int \<lceil>1 / x\<rceil> - 1"
      unfolding y_def .
    then have "1 / (x * 2) \<le> of_int \<lceil>1 / x\<rceil> - 1" by simp
    then have "\<lceil>1 / (x * 2)\<rceil> < \<lceil>1 / x\<rceil>" by (simp add: ceiling_less_iff)
    then have "nat \<lceil>1 / (x * 2)\<rceil> + 1 < nat \<lceil>1 / x\<rceil> + 1" using c2 by linarith
    with False x show ?thesis by simp
  qed
qed

definition round_even :: "real \<Rightarrow> int" where
  "round_even q =
     (let f = \<lfloor>q\<rfloor>; d = q - of_int f
      in if d < 1 / 2 then f else if 1 / 2 < d then f + 1 else if even f then f else f + 1)"

definition grid :: "real \<Rightarrow> int" where
  "grid x = max (expo \<bar>x\<bar>) (- 126) - 23"

definition rnd :: "real \<Rightarrow> float" where
  "rnd x = (if x = 0 then 0 else of_int (round_even (x / 2 powi grid x)) * 2 powi grid x)"

definition fadd :: "float \<Rightarrow> float \<Rightarrow> float" where
  "fadd a b = rnd (a + b)"

definition fsub :: "float \<Rightarrow> float \<Rightarrow> float" where
  "fsub a b = rnd (a - b)"

definition fmul :: "float \<Rightarrow> float \<Rightarrow> float" where
  "fmul a b = rnd (a * b)"

definition fdiv :: "float \<Rightarrow> float \<Rightarrow> float" where
  "fdiv a b = rnd (a / b)"

definition fsqrt :: "float \<Rightarrow> float" where
  "fsqrt a = rnd (sqrt a)"

definition float_of_int :: "int \<Rightarrow> float" where
  "float_of_int n = rnd (of_int n)"

definition float_of_nat :: "nat \<Rightarrow> float" where
  "float_of_nat n = rnd (of_nat n)"

section \<open>Data model\<close>

record Element =
  name :: string
  symbol :: string
  atomicNumber :: int
  color :: "nat \<times> nat \<times> nat"

definition ELEMENTS :: "Element list" where
  "ELEMENTS =
     [\<lparr>name = ''Hydrogen'', symbol = ''H'', atomicNumber = 1, color = (200, 200, 255)\<rparr>,
      \<lparr>name = ''Helium'', symbol = ''He'', atomicNumber = 2, color = (255, 200, 200)\<rparr>,
      \<lparr>name = ''Lithium'', symbol = ''Li'', atomicNumber = 3, color = (200, 255, 200)\<rparr>,
      \<lparr>name = ''Beryllium'', symbol = ''Be'', atomicNumber = 4, color = (200, 255, 255)\<rparr>,
      \<lparr>name = ''Boron'', symbol = ''B'', atomicNumber = 5, color = (255, 220, 180)\<rparr>,
      \<lparr>name = ''Carbon'', symbol = ''C'', atomicNumber = 6, color = (180, 180, 180)\<rparr>,
      \<lparr>name = ''Nitrogen'', symbol = ''N'', atomicNumber = 7, color = (150, 200, 255)\<rparr>,
      \<lparr>name = ''Oxygen'', symbol = ''O'', atomicNumber = 8, color = (255, 120, 120)\<rparr>,
      \<lparr>name = ''Sodium'', symbol = ''Na'', atomicNumber = 11, color = (255, 255, 120)\<rparr>,
      \<lparr>name = ''Chlorine'', symbol = ''Cl'', atomicNumber = 17, color = (120, 255, 120)\<rparr>]"

record Electron =
  radius :: float
  angle :: float
  speed :: float

type_synonym Vector2f = "float \<times> float"

type_synonym Vector2u = "nat \<times> nat"

record Atom =
  id_atom :: int
  elementIndex :: int
  pos :: Vector2f
  nucleusRadius :: float
  active :: bool
  selected :: bool
  electrons :: "Electron list"
  scheduledStart :: "float option"

record Link =
  aId :: int
  bId :: int

definition SIDEBAR_W :: float where
  "SIDEBAR_W = 320"

section \<open>Geometry helpers\<close>

definition vsub :: "Vector2f \<Rightarrow> Vector2f \<Rightarrow> Vector2f" where
  "vsub p q = (fsub (fst p) (fst q), fsub (snd p) (snd q))"

definition length_v :: "Vector2f \<Rightarrow> float" where
  "length_v v = fsqrt (fadd (fmul (fst v) (fst v)) (fmul (snd v) (snd v)))"

text \<open>
  \<^verbatim>\<open>std::clamp(v, lo, hi)\<close> as the standard library of the build (libstdc++) computes it,
  \<^verbatim>\<open>std::min(std::max(v, lo), hi)\<close>. For \<open>lo \<le> hi\<close> this is \<open>lo\<close> if \<open>v < lo\<close>, \<open>hi\<close> if
  \<open>hi < v\<close>, and \<open>v\<close> otherwise. The C++ standard requires \<open>lo \<le> hi\<close> and leaves the call
  undefined when \<open>hi < lo\<close>; the library then returns \<open>hi\<close>, and so does \<open>clampf\<close>.
\<close>

definition clampf :: "float \<Rightarrow> float \<Rightarrow> float \<Rightarrow> float" where
  "clampf v lo hi = min (max v lo) hi"

definition clampToCanvas :: "Vector2f \<Rightarrow> Vector2u \<Rightarrow> Vector2f" where
  "clampToCanvas p winSize =
     (let x = clampf (fst p) (fadd SIDEBAR_W 20) (fsub (float_of_nat (fst winSize)) 20);
          y = clampf (snd p) 20 (fsub (float_of_nat (snd winSize)) 20)
      in (x, y))"

text \<open>
  \<^verbatim>\<open>sf::FloatRect(left, top, width, height).contains(p)\<close> of the SFML 2 library: the left
  and top edges belong to the rectangle, the right and bottom edges do not.
\<close>

datatype FloatRect = FloatRect float float float float

fun contains :: "FloatRect \<Rightarrow> Vector2f \<Rightarrow> bool" where
  "contains (FloatRect l t w h) p =
     (let minX = min l (fadd l w); maxX = max l (fadd l w);
          minY = min t (fadd t h); maxY = max t (fadd t h)
      in fst p \<ge> minX \<and> fst p < maxX \<and> snd p \<ge> minY \<and> snd p < maxY)"

section \<open>Electron distribution generator\<close>

definition shellCap :: "int list" where
  "shellCap = [2, 8, 8, 18]"

definition radii :: "float list" where
  "radii = [30, 50, 70, 90]"

text \<open>
  \<open>rs k\<close> is the result of the \<open>k\<close>-th call of \<^verbatim>\<open>std::rand()\<close> after the
  \<^verbatim>\<open>std::srand\<close> of the generator (a value in \<open>[0, RAND_MAX]\<close>, hence a \<open>nat\<close>).
  \<open>innerLoop\<close> is the loop over \<open>i\<close>; \<open>k\<close> counts the draws consumed so far.
\<close>

function innerLoop ::
  "(nat \<Rightarrow> nat) \<Rightarrow> nat \<Rightarrow> int \<Rightarrow> int \<Rightarrow> nat \<Rightarrow> Electron list \<Rightarrow> Electron list" where
  "innerLoop rs s inShell i k e =
     (if i < inShell then
        let angle0 = fdiv (fmul (fmul 2 (rnd (31415926 / 10000000))) (float_of_int i))
                          (float_of_int (max 1 inShell));
            speed0 = fmul (if s mod 2 = 0 then rnd (8 / 10) else - rnd (5 / 10))
                          (fsub 1 (fmul (float_of_nat s) (rnd (1 / 10))));
            speed1 = fadd speed0
                          (fmul (fsub (fdiv (float_of_int (int (rs k mod 100))) 100) (rnd (5 / 10)))
                                (rnd (2 / 10)))
        in innerLoop rs s inShell (i + 1) (k + 1)
             (e @ [\<lparr>radius = radii ! s, angle = angle0, speed = speed1\<rparr>])
      else e)"
  by pat_completeness auto
termination
  by (relation "measure (\<lambda>(rs, s, inShell, i, k, e). nat (inShell - i))") auto

function shellLoop ::
  "(nat \<Rightarrow> nat) \<Rightarrow> nat \<Rightarrow> int \<Rightarrow> nat \<Rightarrow> Electron list \<Rightarrow> Electron list" where
  "shellLoop rs s remaining k e =
     (if s < length shellCap \<and> remaining > 0 then
        let inShell = min remaining (shellCap ! s)
        in shellLoop rs (s + 1) (remaining - inShell) (k + nat inShell)
             (innerLoop rs s inShell 0 k e)
      else e)"
  by pat_completeness auto
termination
  by (relation "measure (\<lambda>(rs, s, remaining, k, e). length shellCap - s)") auto

definition makeElectronsForElement :: "(nat \<Rightarrow> nat) \<Rightarrow> int \<Rightarrow> Electron list" where
  "makeElectronsForElement rs Z = shellLoop rs 0 (min Z 24) 0 []"

text \<open>
  The filling rule in the words of the specification: the shells are taken in order and
  each receives \<open>min remaining capacity\<close> occupants.
\<close>

fun spec_fill :: "nat \<Rightarrow> nat list \<Rightarrow> nat list" where
  "spec_fill remaining [] = []"
| "spec_fill remaining (c # cs) = min remaining c # spec_fill (remaining - min remaining c) cs"

definition shells :: "nat \<Rightarrow> nat list \<Rightarrow> float list \<Rightarrow> float list" where
  "shells n caps rads = concat (map2 replicate (spec_fill n caps) rads)"

text \<open>
  The two summands of an electron's speed, as \<open>innerLoop\<close> computes them: the base speed of
  shell \<open>s\<close> and the variance for the draw \<open>r = rand() % 100\<close>.
\<close>

definition baseSpeed :: "nat \<Rightarrow> float" where
  "baseSpeed s =
     fmul (if s mod 2 = 0 then rnd (8 / 10) else - rnd (5 / 10))
          (fsub 1 (fmul (float_of_nat s) (rnd (1 / 10))))"

definition jitter :: "nat \<Rightarrow> float" where
  "jitter r = fmul (fsub (fdiv (float_of_int (int r)) 100) (rnd (5 / 10))) (rnd (2 / 10))"

section \<open>Program state and commands\<close>

text \<open>
  The local variables of \<^verbatim>\<open>main\<close> that the commands and handlers capture. \<open>hover\<close> holds
  the hover flag of each of the eight buttons, in the order in which they are built;
  \<open>isOpen\<close> is \<^verbatim>\<open>window.isOpen()\<close>. Identifiers are C++ \<^verbatim>\<open>int\<close>; the counter
  \<open>nextId\<close> would have to pass \<open>2 ^ 31 - 1\<close> to overflow, so they are modelled as \<open>int\<close>.
\<close>

record State =
  atoms :: "Atom list"
  links :: "Link list"
  nextId :: int
  selectedElement :: int
  dragging :: bool
  dragOffset :: Vector2f
  draggingId :: int
  hover :: "bool list"
  isOpen :: bool

definition initState :: State where
  "initState =
     \<lparr>atoms = [], links = [], nextId = 1, selectedElement = 0, dragging = False,
      dragOffset = (0, 0), draggingId = - 1, hover = replicate 8 False, isOpen = True\<rparr>"

text \<open>
  What a handler reads from outside the program while it runs: the state of the control
  keys, the reading of \<^verbatim>\<open>simClock\<close>, the size of the window, the next results of
  \<^verbatim>\<open>std::rand()\<close> (\<open>rands\<close>, from the current generator state, and \<open>seeded\<close>, after the
  \<^verbatim>\<open>std::srand\<close> in \<open>makeElectronsForElement\<close>), and whether a point lies within the
  global bounds of the \<open>i\<close>-th button (computed by SFML from the button's box).
\<close>

record Env =
  ctrl :: bool
  clock :: float
  winSize :: Vector2u
  rands :: "nat \<Rightarrow> nat"
  seeded :: "nat \<Rightarrow> nat"
  overButton :: "Vector2f \<Rightarrow> nat \<Rightarrow> bool"

definition addAtom :: "Env \<Rightarrow> State \<Rightarrow> State" where
  "addAtom env st =
     (let el = ELEMENTS ! nat (selectedElement st);
          a = \<lparr>id_atom = nextId st,
               elementIndex = selectedElement st,
               pos = (fadd (fadd SIDEBAR_W 100) (float_of_int (int (rands env 0 mod 600))),
                      fadd 100 (float_of_int (int (rands env 1 mod 500)))),
               nucleusRadius = 16,
               active = False,
               selected = False,
               electrons = makeElectronsForElement (seeded env) (atomicNumber el),
               scheduledStart = None\<rparr>
      in st\<lparr>nextId := nextId st + 1, atoms := atoms st @ [a]\<rparr>)"

definition removeSelected :: "State \<Rightarrow> State" where
  "removeSelected st =
     (let toRemoveIds = map id_atom (filter selected (atoms st))
      in st\<lparr>atoms := filter (\<lambda>a. \<not> id_atom a \<in> set toRemoveIds) (atoms st),
            links := filter (\<lambda>L. \<not> (aId L \<in> set toRemoveIds \<or> bId L \<in> set toRemoveIds))
                       (links st)\<rparr>)"

definition toggleActiveSelected :: "State \<Rightarrow> State" where
  "toggleActiveSelected st =
     st\<lparr>atoms := map (\<lambda>a. if selected a then a\<lparr>active := \<not> active a\<rparr> else a) (atoms st)\<rparr>"

definition scheduleSelected :: "Env \<Rightarrow> State \<Rightarrow> State" where
  "scheduleSelected env st =
     (let t = clock env
      in st\<lparr>atoms := map (\<lambda>a. if selected a then a\<lparr>scheduledStart := Some (fadd t 2)\<rparr> else a)
                       (atoms st)\<rparr>)"

definition clearAll :: "State \<Rightarrow> State" where
  "clearAll st = st\<lparr>atoms := [], links := []\<rparr>"

definition linkPair :: "State \<Rightarrow> State" where
  "linkPair st =
     (let sel = map id_atom (filter selected (atoms st))
      in if length sel = 2 then
           let a0 = sel ! 0; b0 = sel ! 1;
               a = (if a0 > b0 then b0 else a0);
               b = (if a0 > b0 then a0 else b0);
               exists = list_ex (\<lambda>L. aId L = a \<and> bId L = b) (links st)
           in if \<not> exists then st\<lparr>links := links st @ [\<lparr>aId = a, bId = b\<rparr>]\<rparr> else st
         else st)"

definition prevElement :: "State \<Rightarrow> State" where
  "prevElement st =
     st\<lparr>selectedElement :=
          (selectedElement st - 1 + int (length ELEMENTS)) smod int (length ELEMENTS)\<rparr>"

definition nextElement :: "State \<Rightarrow> State" where
  "nextElement st =
     st\<lparr>selectedElement := (selectedElement st + 1) smod int (length ELEMENTS)\<rparr>"

text \<open>The \<^verbatim>\<open>onClick\<close> of the \<open>i\<close>-th button, in the order of \<^verbatim>\<open>buttons.push_back\<close>.\<close>

definition onClick :: "nat \<Rightarrow> Env \<Rightarrow> State \<Rightarrow> State" where
  "onClick i env st =
     (if i = 0 then prevElement st
      else if i = 1 then nextElement st
      else if i = 2 then addAtom env st
      else if i = 3 then toggleActiveSelected st
      else if i = 4 then scheduleSelected env st
      else if i = 5 then linkPair st
      else if i = 6 then removeSelected st
      else if i = 7 then clearAll st
      else st)"

section \<open>Event handlers\<close>

datatype Button = Left | OtherButton

datatype Event =
    Closed
  | MouseMoved int int
  | MouseButtonPressed Button int int
  | MouseButtonReleased Button int int
  | OtherEvent

text \<open>
  \<open>yList\<close> is the value of \<^verbatim>\<open>y\<close> after the buttons are laid out:
  \<open>20 + 48 + 40 + 40 + 40 + 40 + 40 + 48 + 24\<close>, every partial sum being a small integer.
\<close>

definition yList :: float where
  "yList = 340"

text \<open>A loop that stops at the first element satisfying \<open>P\<close> and updates it (\<^verbatim>\<open>break\<close>).\<close>

fun updateFirst :: "('a \<Rightarrow> bool) \<Rightarrow> ('a \<Rightarrow> 'a) \<Rightarrow> 'a list \<Rightarrow> 'a list" where
  "updateFirst P f [] = []"
| "updateFirst P f (a # as) = (if P a then f a # as else a # updateFirst P f as)"

definition onMouseMoved :: "Env \<Rightarrow> int \<Rightarrow> int \<Rightarrow> State \<Rightarrow> State" where
  "onMouseMoved env mx my st =
     (let m = (float_of_int mx, float_of_int my);
          st1 = st\<lparr>hover := map (overButton env m) [0..<length (hover st)]\<rparr>
      in if dragging st1 \<and> draggingId st1 \<noteq> - 1 then
           st1\<lparr>atoms := updateFirst (\<lambda>a. id_atom a = draggingId st1)
                             (\<lambda>a. a\<lparr>pos := clampToCanvas (vsub m (dragOffset st1)) (winSize env)\<rparr>)
                             (atoms st1)\<rparr>
         else st1)"

text \<open>The row of the atom list under the pointer, searched from the top (\<^verbatim>\<open>break\<close> at the first).\<close>

fun rowAt :: "Vector2f \<Rightarrow> float \<Rightarrow> nat \<Rightarrow> Atom list \<Rightarrow> nat option" where
  "rowAt m yy i [] = None"
| "rowAt m yy i (a # as) =
     (if contains (FloatRect 16 yy (fsub SIDEBAR_W 32) 22) m then Some i
      else rowAt m (fadd yy 24) (i + 1) as)"

definition listClick :: "Env \<Rightarrow> Vector2f \<Rightarrow> State \<Rightarrow> State" where
  "listClick env m st =
     (case rowAt m yList 0 (atoms st) of
        None \<Rightarrow> st
      | Some i \<Rightarrow>
          if ctrl env then
            st\<lparr>atoms := (atoms st)[i := (atoms st ! i)\<lparr>selected := \<not> selected (atoms st ! i)\<rparr>]\<rparr>
          else
            st\<lparr>atoms := (map (\<lambda>z. z\<lparr>selected := False\<rparr>) (atoms st))
                           [i := (atoms st ! i)\<lparr>selected := True\<rparr>]\<rparr>)"

text \<open>The loop that picks the atom under the pointer: the last atom in range wins.\<close>

definition isHit :: "Vector2f \<Rightarrow> Atom \<Rightarrow> bool" where
  "isHit m a = (length_v (vsub m (pos a)) \<le> fadd (nucleusRadius a) 8)"

definition pickAtom :: "Vector2f \<Rightarrow> Atom list \<Rightarrow> int" where
  "pickAtom m as = fold (\<lambda>a hitId. if isHit m a then id_atom a else hitId) as (- 1)"

definition canvasClick :: "Env \<Rightarrow> Vector2f \<Rightarrow> State \<Rightarrow> State" where
  "canvasClick env m st =
     (let hitId = pickAtom m (atoms st)
      in if hitId \<noteq> - 1 then
           let st1 =
                 (if ctrl env then
                    st\<lparr>atoms := map (\<lambda>a. if id_atom a = hitId then a\<lparr>selected := \<not> selected a\<rparr>
                                         else a) (atoms st)\<rparr>
                  else
                    st\<lparr>atoms := map (\<lambda>a. a\<lparr>selected := (id_atom a = hitId)\<rparr>) (atoms st)\<rparr>)
           in case find (\<lambda>a. id_atom a = hitId) (atoms st1) of
                Some a \<Rightarrow> st1\<lparr>dragging := True, draggingId := hitId, dragOffset := vsub m (pos a)\<rparr>
              | None \<Rightarrow> st1
         else st\<lparr>atoms := map (\<lambda>a. a\<lparr>selected := False\<rparr>) (atoms st)\<rparr>)"

definition onLeftPressed :: "Env \<Rightarrow> int \<Rightarrow> int \<Rightarrow> State \<Rightarrow> State" where
  "onLeftPressed env mx my st =
     (let m = (float_of_int mx, float_of_int my)
      in case find (overButton env m) [0..<length (hover st)] of
           Some i \<Rightarrow> onClick i env st
         | None \<Rightarrow> if fst m < SIDEBAR_W then listClick env m st else canvasClick env m st)"

definition onLeftReleased :: "State \<Rightarrow> State" where
  "onLeftReleased st = st\<lparr>dragging := False, draggingId := - 1\<rparr>"

fun handleEvent :: "Env \<Rightarrow> Event \<Rightarrow> State \<Rightarrow> State" where
  "handleEvent env Closed st = st\<lparr>isOpen := False\<rparr>"
| "handleEvent env (MouseMoved mx my) st = onMouseMoved env mx my st"
| "handleEvent env (MouseButtonPressed Left mx my) st = onLeftPressed env mx my st"
| "handleEvent env (MouseButtonReleased Left mx my) st = onLeftReleased st"
| "handleEvent env ev st = st"

section \<open>Per-frame update\<close>

definition updateAtom :: "float \<Rightarrow> Atom \<Rightarrow> Atom" where
  "updateAtom t a =
     (let a1 = (case scheduledStart a of
                  Some s \<Rightarrow> if t \<ge> s then a\<lparr>active := True, scheduledStart := None\<rparr> else a
                | None \<Rightarrow> a)
      in if active a1 then
           a1\<lparr>electrons := map (\<lambda>e. e\<lparr>angle := fadd (angle e) (fmul (speed e) (fdiv 1 60))\<rparr>)
                                (electrons a1)\<rparr>
         else a1)"

definition timeUpdate :: "float \<Rightarrow> State \<Rightarrow> State" where
  "timeUpdate t st = st\<lparr>atoms := map (updateAtom t) (atoms st)\<rparr>"

text \<open>
  One iteration of the main loop: the queued events are handled in order (each with what
  it reads from outside; polling stops once the window is closed), then the clock is read
  and the time update runs.
\<close>

fun pollEvents :: "(Env \<times> Event) list \<Rightarrow> State \<Rightarrow> State" where
  "pollEvents [] st = st"
| "pollEvents ((env, ev) # evs) st =
     (if isOpen st then pollEvents evs (handleEvent env ev st) else st)"

definition frame :: "(Env \<times> Event) list \<Rightarrow> float \<Rightarrow> State \<Rightarrow> State" where
  "frame evs t st = timeUpdate t (pollEvents evs st)"

text \<open>The states of a run: the main loop repeats \<open>frame\<close> while the window is open.\<close>

inductive reachable :: "State \<Rightarrow> bool" where
  reachable_init: "reachable initState"
| reachable_frame: "reachable st \<Longrightarrow> isOpen st \<Longrightarrow> reachable (frame evs t st)"

section \<open>State predicates\<close>

definition exclusive :: "Atom \<Rightarrow> bool" where
  "exclusive a = (\<not> (active a \<and> scheduledStart a \<noteq> None))"

definition noDangling :: "State \<Rightarrow> bool" where
  "noDangling st =
     list_all (\<lambda>L. aId L \<in> id_atom ` set (atoms st) \<and> bId L \<in> id_atom ` set (atoms st))
       (links st)"

definition idsOf :: "State \<Rightarrow> int list" where
  "idsOf st = map id_atom (atoms st)"

text \<open>
  What every reachable state satisfies: no link dangles, no link and no identifier occurs
  twice, the identifiers lie between 1 and \<open>nextId\<close>, and \<open>selectedElement\<close> indexes
  \<open>ELEMENTS\<close>.
\<close>

definition wellFormed :: "State \<Rightarrow> bool" where
  "wellFormed st =
     (noDangling st \<and> distinct (links st) \<and> distinct (idsOf st)
      \<and> 1 \<le> nextId st \<and> list_all (\<lambda>k. 1 \<le> k \<and> k < nextId st) (idsOf st)
      \<and> 0 \<le> selectedElement st \<and> selectedElement st < int (length ELEMENTS))"

text \<open>
  The number of Scheduled-to-Active transitions of an atom in a sequence of per-frame
  updates at the given times: an update makes the transition when it clears a pending
  \<open>scheduledStart\<close>.
\<close>

fun transitions :: "float list \<Rightarrow> Atom \<Rightarrow> nat" where
  "transitions [] a = 0"
| "transitions (t # ts) a =
     (if scheduledStart a \<noteq> None \<and> scheduledStart (updateAtom t a) = None then 1 else 0)
     + transitions ts (updateAtom t a)"

section \<open>Example data\<close>

text \<open>
  A layout of the eight buttons (their boxes as \<^verbatim>\<open>main\<close> places them), an environment with
  a 1200 by 800 window and the clock at 5 seconds, and a few small states, used to run
  the program on concrete inputs.
\<close>

definition buttonBox :: "nat \<Rightarrow> FloatRect" where
  "buttonBox i =
     (if i = 0 then FloatRect 16 20 140 32
      else if i = 1 then FloatRect 176 20 140 32
      else FloatRect 16 (40 * real i - 12) 300 32)"

definition demoEnv :: Env where
  "demoEnv = \<lparr>ctrl = False, clock = 5, winSize = (1200, 800), rands = (\<lambda>k. 0),
              seeded = (\<lambda>k. 0), overButton = (\<lambda>m i. contains (buttonBox i) m)\<rparr>"

definition demoAtom :: "bool \<Rightarrow> bool \<Rightarrow> float option \<Rightarrow> Atom" where
  "demoAtom act sel sch =
     \<lparr>id_atom = 1, elementIndex = 0, pos = (420, 100), nucleusRadius = 16, active = act,
      selected = sel, electrons = makeElectronsForElement (\<lambda>k. 0) 1, scheduledStart = sch\<rparr>"

definition demoRun :: State where
  "demoRun =
     frame [(demoEnv, MouseButtonPressed Left 100 120), (demoEnv, MouseButtonReleased Left 100 120)] 6
      (frame [(demoEnv, MouseButtonPressed Left 100 160), (demoEnv, MouseButtonReleased Left 100 160)] 5
        (frame [(demoEnv, MouseButtonPressed Left 420 100), (demoEnv, MouseButtonReleased Left 420 100)] 5
          (frame [(demoEnv, MouseButtonPressed Left 100 80), (demoEnv, MouseButtonReleased Left 100 80)] 5
            initState)))"

definition atomA :: Atom where
  "atomA =
     \<lparr>id_atom = 1, elementIndex = 0, pos = (400, 300), nucleusRadius = 16, active = False,
      selected = True, electrons = [\<lparr>radius = 30, angle = 0, speed = 1 / 2\<rparr>],
      scheduledStart = None\<rparr>"

definition atomB :: Atom where
  "atomB =
     \<lparr>id_atom = 2, elementIndex = 1, pos = (600, 300), nucleusRadius = 16, active = True,
      selected = True, electrons = [\<lparr>radius = 30, angle = 1, speed = - (1 / 2)\<rparr>],
      scheduledStart = None\<rparr>"

definition stateAB :: State where
  "stateAB = initState\<lparr>atoms := [atomA, atomB], nextId := 3\<rparr>"

definition stateBA :: State where
  "stateBA = initState\<lparr>atoms := [atomB, atomA], nextId := 3\<rparr>"

definition stateLinked :: State where
  "stateLinked =
     initState\<lparr>atoms := [atomA, atomB\<lparr>selected := False\<rparr>], links := [\<lparr>aId = 1, bId = 2\<rparr>],
               nextId := 3\<rparr>"

definition stateIdle :: State where
  "stateIdle =
     initState\<lparr>atoms := [atomA\<lparr>selected := False\<rparr>, atomB\<lparr>selected := False\<rparr>],
               links := [\<lparr>aId = 1, bId = 2\<rparr>], nextId := 3\<rparr>"

definition stateDrag :: State where
  "stateDrag = stateAB\<lparr>dragging := True, draggingId := 1, dragOffset := (5, 5)\<rparr>"

text \<open>
  The run \<open>demoRun\<close> before its fourth frame: the atom is selected, inactive and scheduled
  for time 7. And the environment of a window resized to 350 by 600.
\<close>

definition demoScheduled :: State where
  "demoScheduled =
     frame [(demoEnv, MouseButtonPressed Left 100 160), (demoEnv, MouseButtonReleased Left 100 160)] 5
      (frame [(demoEnv, MouseButtonPressed Left 420 100), (demoEnv, MouseButtonReleased Left 420 100)] 5
        (frame [(demoEnv, MouseButtonPressed Left 100 80), (demoEnv, MouseButtonReleased Left 100 80)] 5
          initState))"

definition smallEnv :: Env where
  "smallEnv = demoEnv\<lparr>winSize := (350, 600)\<rparr>"

section \<open>Properties of the rounding\<close>

declare expo.simps [simp del]

lemma two_powi_pos [simp]: "0 < (2::real) powi k"
  by (simp add: zero_less_power_int)

lemma two_powi_Suc: "(2::real) powi (k + 1) = 2 powi k * 2"
  by (simp add: power_int_add)

lemma two_powi_pred: "(2::real) powi (k - 1) = 2 powi k / 2"
  by (simp add: power_int_diff)

lemma expo_bounds: "0 < x \<Longrightarrow> 2 powi (expo x) \<le> x \<and> x < 2 powi (expo x + 1)"
proof (induction x rule: expo.induct)
  case (1 x)
  consider "2 \<le> x" | "x < 1" | "1 \<le> x" "x < 2" by linarith
  then show ?case
  proof cases
    case 1
    with "1.prems" "1.IH"(1) have IH: "2 powi (expo (x / 2)) \<le> x / 2" "x / 2 < 2 powi (expo (x / 2) + 1)"
      by simp_all
    have e: "expo x = expo (x / 2) + 1"
      using 1 "1.prems" by (subst expo.simps) simp
    have "(2::real) powi (expo x) = 2 powi (expo (x / 2)) * 2"
      unfolding e by (rule two_powi_Suc)
    moreover have "(2::real) powi (expo x + 1) = 2 powi (expo (x / 2) + 1) * 2"
      unfolding e by (rule two_powi_Suc)
    ultimately show ?thesis using IH by simp
  next
    case 2
    with "1.prems" "1.IH"(2) have IH: "2 powi (expo (x * 2)) \<le> x * 2" "x * 2 < 2 powi (expo (x * 2) + 1)"
      by simp_all
    have e: "expo x = expo (x * 2) - 1"
      using 2 "1.prems" by (subst expo.simps) simp
    have "(2::real) powi (expo x) = 2 powi (expo (x * 2)) / 2"
      unfolding e by (rule two_powi_pred)
    moreover have "(2::real) powi (expo x + 1) = 2 powi (expo (x * 2) + 1) / 2"
      unfolding e using two_powi_pred [of "expo (x * 2) + 1"] by simp
    ultimately show ?thesis using IH by simp
  next
    case 3
    then have "expo x = 0" by (subst expo.simps) simp
    with 3 show ?thesis by simp
  qed
qed

lemma two_powi_mono: "k \<le> l \<Longrightarrow> (2::real) powi k \<le> 2 powi l"
  by (simp add: power_int_increasing)

lemma two_powi_less_cancel: "(2::real) powi k < 2 powi l \<Longrightarrow> k < l"
  using two_powi_mono [of l k] by (cases "k < l") simp_all

lemma expo_unique:
  assumes "2 powi e \<le> x" "x < 2 powi (e + 1)"
  shows "expo x = e"
proof -
  have x: "0 < x" using assms(1) two_powi_pos [of e] by linarith
  from expo_bounds [OF x] assms
  have "2 powi e < (2::real) powi (expo x + 1)" "2 powi (expo x) < (2::real) powi (e + 1)"
    by linarith+
  then have "e < expo x + 1" "expo x < e + 1"
    by (auto dest: two_powi_less_cancel)
  then show ?thesis by simp
qed

lemma expo_mono: "0 < x \<Longrightarrow> x \<le> y \<Longrightarrow> expo x \<le> expo y"
proof -
  assume x: "0 < x" and xy: "x \<le> y"
  then have y: "0 < y" by simp
  from expo_bounds [OF x] expo_bounds [OF y] xy
  have "2 powi (expo x) < (2::real) powi (expo y + 1)" by linarith
  then have "expo x < expo y + 1" by (rule two_powi_less_cancel)
  then show ?thesis by simp
qed

lemma round_even_of_int [simp]: "round_even (of_int n) = n"
  by (simp add: round_even_def)

lemma round_even_bounds: "of_int (round_even q) \<le> q + 1 / 2 \<and> q - 1 / 2 \<le> of_int (round_even q)"
  unfolding round_even_def Let_def by (auto; linarith)

lemma round_even_floor: "\<lfloor>q\<rfloor> \<le> round_even q \<and> round_even q \<le> \<lfloor>q\<rfloor> + 1"
  unfolding round_even_def Let_def by auto

lemma round_even_mono: "q \<le> r \<Longrightarrow> round_even q \<le> round_even r"
proof -
  assume qr: "q \<le> r"
  then have fl: "\<lfloor>q\<rfloor> \<le> \<lfloor>r\<rfloor>" by (rule floor_mono)
  show ?thesis
  proof (cases "\<lfloor>q\<rfloor> = \<lfloor>r\<rfloor>")
    case True
    with qr show ?thesis
      unfolding round_even_def Let_def by auto
  next
    case False
    with fl have "\<lfloor>q\<rfloor> + 1 \<le> \<lfloor>r\<rfloor>" by simp
    with round_even_floor [of q] round_even_floor [of r] show ?thesis by linarith
  qed
qed

lemma round_even_le_int: "q \<le> of_int n \<Longrightarrow> round_even q \<le> n"
  using round_even_mono [of q "of_int n"] by simp

lemma round_even_ge_int: "of_int n \<le> q \<Longrightarrow> n \<le> round_even q"
  using round_even_mono [of "of_int n" q] by simp

lemma round_even_minus: "round_even (- q) = - round_even q"
proof (cases "q = of_int \<lfloor>q\<rfloor>")
  case True
  then obtain n where "q = of_int n" ..
  then show ?thesis
    using round_even_of_int [of "- n"] by simp
next
  case False
  then have c: "\<lceil>q\<rceil> = \<lfloor>q\<rfloor> + 1"
    by (metis ceiling_altdef)
  have f: "\<lfloor>- q\<rfloor> = - \<lfloor>q\<rfloor> - 1"
    using c by (simp add: ceiling_def)
  show ?thesis
    unfolding round_even_def Let_def f
    by (auto; linarith?)
qed

lemma rnd_grid: "x \<noteq> 0 \<Longrightarrow> rnd x = of_int (round_even (x / 2 powi grid x)) * 2 powi grid x"
  by (simp add: rnd_def)

lemma rnd_0 [simp]: "rnd 0 = 0"
  by (simp add: rnd_def)

lemma grid_minus [simp]: "grid (- x) = grid x"
  by (simp add: grid_def)

lemma rnd_minus: "rnd (- x) = - rnd x"
  by (simp add: rnd_def round_even_minus)

lemma grid_mono: "0 < x \<Longrightarrow> x \<le> y \<Longrightarrow> grid x \<le> grid y"
  using expo_mono [of x y] by (simp add: grid_def)

lemma rnd_upper:
  assumes x: "0 < x"
  shows "rnd x \<le> 2 powi (grid x + 24)"
proof -
  let ?u = "(2::real) powi grid x"
  have "expo x + 1 \<le> grid x + 24" using x by (simp add: grid_def)
  then have "(2::real) powi (expo x + 1) \<le> 2 powi (grid x + 24)" by (rule two_powi_mono)
  with expo_bounds [OF x] have "x < 2 powi (grid x + 24)" by linarith
  also have "\<dots> = of_int (2 ^ 24) * ?u"
    by (simp add: power_int_add)
  finally have "x / ?u \<le> of_int (2 ^ 24)"
    by (simp add: divide_le_eq)
  then have "round_even (x / ?u) \<le> 2 ^ 24" by (rule round_even_le_int)
  then have "(of_int (round_even (x / ?u)) :: real) \<le> of_int (2 ^ 24)" 
    by (simp only: of_int_le_iff)
  then have "of_int (round_even (x / ?u)) * ?u \<le> of_int (2 ^ 24) * ?u"
    by (simp add: mult_right_mono)
  then show ?thesis
    using x by (simp add: rnd_grid power_int_add)
qed

lemma rnd_lower:
  assumes x: "0 < x" and e: "- 126 \<le> expo x"
  shows "2 powi (expo x) \<le> rnd x"
proof -
  let ?u = "(2::real) powi grid x"
  have g: "grid x = expo x - 23" using x e by (simp add: grid_def)
  have "(2::real) powi (expo x) = of_int (2 ^ 23) * ?u"
    using power_int_add [of "2::real" 23 "expo x - 23"] by (simp add: g)
  with expo_bounds [OF x] have "of_int (2 ^ 23) \<le> x / ?u"
    by (simp add: le_divide_eq)
  then have "2 ^ 23 \<le> round_even (x / ?u)" by (rule round_even_ge_int)
  then have "(of_int (2 ^ 23) :: real) \<le> of_int (round_even (x / ?u))"
    by (simp only: of_int_le_iff)
  then have "of_int (2 ^ 23) * ?u \<le> of_int (round_even (x / ?u)) * ?u"
    by (simp add: mult_right_mono)
  then show ?thesis
    using x \<open>2 powi (expo x) = of_int (2 ^ 23) * ?u\<close> by (simp add: rnd_grid)
qed

lemma rnd_nonneg: "0 \<le> x \<Longrightarrow> 0 \<le> rnd x"
proof (cases "x = 0")
  case True
  then show ?thesis by simp
next
  case False
  assume "0 \<le> x"
  with False have "0 \<le> round_even (x / 2 powi grid x)"
    by (intro round_even_ge_int) simp
  with False show ?thesis by (simp add: rnd_grid)
qed

lemma rnd_mono_pos:
  assumes x: "0 < x" and xy: "x \<le> y"
  shows "rnd x \<le> rnd y"
proof (cases "grid x = grid y")
  case True
  have y: "0 < y" using x xy by simp
  have "x / 2 powi grid y \<le> y / 2 powi grid y"
    using xy by (simp add: divide_right_mono)
  then have "round_even (x / 2 powi grid y) \<le> round_even (y / 2 powi grid y)"
    by (rule round_even_mono)
  then have "(of_int (round_even (x / 2 powi grid y)) :: real) \<le> of_int (round_even (y / 2 powi grid y))"
    by (simp only: of_int_le_iff)
  then show ?thesis
    using x y True by (simp add: rnd_grid mult_right_mono)
next
  case False
  have y: "0 < y" using x xy by simp
  from False grid_mono [OF x xy] have lt: "grid x < grid y" by simp
  then have ey: "- 126 \<le> expo y" "grid y = expo y - 23"
    using x y by (auto simp: grid_def max_def split: if_splits)
  have "rnd x \<le> 2 powi (grid x + 24)" by (rule rnd_upper [OF x])
  also have "\<dots> \<le> 2 powi (expo y)"
    using lt ey by (intro two_powi_mono) simp
  also have "\<dots> \<le> rnd y" by (rule rnd_lower [OF y ey(1)])
  finally show ?thesis .
qed

lemma rnd_mono: "x \<le> y \<Longrightarrow> rnd x \<le> rnd y"
proof -
  assume xy: "x \<le> y"
  consider "0 < x" | "x \<le> 0" "0 \<le> y" | "y < 0" by linarith
  then show ?thesis
  proof cases
    case 1
    then show ?thesis using xy by (rule rnd_mono_pos)
  next
    case 2
    then have "rnd x \<le> 0" "0 \<le> rnd y"
      using rnd_nonneg [of "- x"] rnd_nonneg [of y] by (simp_all add: rnd_minus)
    then show ?thesis by simp
  next
    case 3
    then have "rnd (- y) \<le> rnd (- x)"
      using xy by (intro rnd_mono_pos) simp_all
    then show ?thesis by (simp add: rnd_minus)
  qed
qed

lemma rnd_exact:
  assumes m: "\<bar>m\<bar> < 2 ^ 24" and j: "- 149 \<le> j"
  shows "rnd (of_int m * 2 powi j) = of_int m * 2 powi j"
proof (cases "m = 0")
  case True
  then show ?thesis by simp
next
  case False
  define x :: real where "x = of_int m * 2 powi j"
  define g where "g = grid x"
  define P :: real where "P = 2 powi g"
  have x0: "x \<noteq> 0" using False by (simp add: x_def)
  have ax: "\<bar>x\<bar> = of_int \<bar>m\<bar> * 2 powi j" by (simp add: x_def abs_mult)
  have pos: "0 < \<bar>x\<bar>" using x0 by simp
  have P: "0 < P" by (simp add: P_def)
  have "(of_int \<bar>m\<bar> :: real) < of_int (2 ^ 24)" using m by (simp only: of_int_less_iff)
  then have "\<bar>x\<bar> < 2 powi (24 + j)"
    unfolding ax by (simp add: power_int_add)
  with expo_bounds [OF pos] have "(2::real) powi (expo \<bar>x\<bar>) < 2 powi (24 + j)" by linarith
  then have "expo \<bar>x\<bar> < 24 + j" by (rule two_powi_less_cancel)
  with j have k: "0 \<le> j - g" by (simp add: grid_def g_def)
  define k where "k = nat (j - g)"
  have jk: "j = g + int k" using k by (simp add: k_def)
  have pj: "(2::real) powi j = P * 2 ^ k"
    by (subst jk) (simp add: power_int_add P_def)
  have "x / P = (of_int m * (P * 2 ^ k)) / P" by (simp only: x_def pj)
  also have "\<dots> = of_int (m * 2 ^ k)" using P by simp
  finally have q: "x / P = of_int (m * 2 ^ k)" .
  have "rnd x = of_int (round_even (x / P)) * P"
    unfolding P_def g_def using x0 by (rule rnd_grid)
  also have "\<dots> = of_int (m * 2 ^ k) * P"
    unfolding q by (simp only: round_even_of_int)
  also have "\<dots> = of_int m * (P * 2 ^ k)" by simp
  also have "\<dots> = x" by (simp only: x_def pj)
  finally show ?thesis by (simp only: x_def)
qed

lemma rnd_of_int: "\<bar>m\<bar> < 2 ^ 24 \<Longrightarrow> rnd (of_int m) = of_int m"
  using rnd_exact [of m 0] by simp

text \<open>Values of the rounding at the constants of the program.\<close>

lemma rnd_numeral [simp]: "numeral k < (16777216::int) \<Longrightarrow> rnd (numeral k) = numeral k"
  using rnd_of_int [of "numeral k"] by simp

lemma rnd_neg_numeral [simp]: "numeral k < (16777216::int) \<Longrightarrow> rnd (- numeral k) = - numeral k"
  by (simp add: rnd_minus)

lemma rnd_1 [simp]: "rnd 1 = 1"
  using rnd_of_int [of 1] by simp

lemma rnd_half [simp]: "rnd (1 / 2) = 1 / 2"
  using rnd_exact [of 1 "- 1"] by (simp add: power_int_minus)

lemma rnd_neg_half [simp]: "rnd (- (1 / 2)) = - (1 / 2)"
  using rnd_minus [of "1 / 2"] by simp

lemma rnd_eval:
  assumes "2 powi e \<le> \<bar>x\<bar>" "\<bar>x\<bar> < 2 powi (e + 1)"
  shows "rnd x = of_int (round_even (x / 2 powi (max e (- 126) - 23))) * 2 powi (max e (- 126) - 23)"
proof -
  have "x \<noteq> 0"
  proof
    assume "x = 0"
    with assms(1) have "(2::real) powi e \<le> 0" by simp
    with two_powi_pos [of e] show False by linarith
  qed
  moreover have "expo \<bar>x\<bar> = e" using assms by (rule expo_unique)
  ultimately show ?thesis by (simp add: rnd_def grid_def)
qed

lemma rnd_tenth: "rnd (1 / 10) = 13421773 / 134217728"
  by (subst rnd_eval [of "- 4"]) (simp_all add: round_even_def power_int_minus)

lemma rnd_fifth: "rnd (2 / 10) = 13421773 / 67108864"
  by (subst rnd_eval [of "- 3"]) (simp_all add: round_even_def power_int_minus)

lemma rnd_four_fifths: "rnd (8 / 10) = 13421773 / 16777216"
  by (subst rnd_eval [of "- 1"]) (simp_all add: round_even_def power_int_minus)

lemma rnd_6_9: "rnd (69 / 10) = 14470349 / 2097152"
  by (subst rnd_eval [of 2]) (simp_all add: round_even_def)

lemma rnd_7_1: "rnd (71 / 10) = 14889779 / 2097152"
  by (subst rnd_eval [of 2]) (simp_all add: round_even_def)

lemma rnd_sixtieth: "rnd (1 / 60) = 8947849 / 536870912"
  by (subst rnd_eval [of "- 6"]) (simp_all add: round_even_def power_int_minus)

lemmas float_ops = fadd_def fsub_def fmul_def fdiv_def fsqrt_def float_of_int_def float_of_nat_def

lemma sqrt_40000: "sqrt 40000 = 200"
  by (rule real_sqrt_unique) simp_all

section \<open>The generator: count and shells\<close>

declare innerLoop.simps [simp del] shellLoop.simps [simp del]

lemma innerLoop_length: "length (innerLoop rs s n i k e) = length e + nat (n - i)"
proof (induction rs s n i k e rule: innerLoop.induct)
  case (1 rs s inShell i k e)
  show ?case
    by (subst innerLoop.simps) (use 1 in \<open>auto simp: Let_def\<close>)
qed

lemma innerLoop_radius:
  "map radius (innerLoop rs s n i k e) = map radius e @ replicate (nat (n - i)) (radii ! s)"
proof (induction rs s n i k e rule: innerLoop.induct)
  case (1 rs s inShell i k e)
  show ?case
  proof (cases "i < inShell")
    case True
    then have "nat (inShell - i) = Suc (nat (inShell - (i + 1)))" by simp
    with True 1 show ?thesis
      by (subst innerLoop.simps) (simp add: Let_def replicate_append_same)
  next
    case False
    then show ?thesis by (subst innerLoop.simps) simp
  qed
qed

lemma shells_zero: "shells 0 caps rads = []"
proof (induction caps arbitrary: rads)
  case Nil
  show ?case by (simp add: shells_def)
next
  case (Cons c caps)
  then show ?case by (cases rads) (simp_all add: shells_def)
qed

lemma shellLoop_radius:
  "map radius (shellLoop rs s r k e) =
     map radius e @ shells (nat r) (map nat (drop s shellCap)) (drop s radii)"
proof (induction rs s r k e rule: shellLoop.induct)
  case (1 rs s remaining k e)
  show ?case
  proof (cases "s < length shellCap \<and> remaining > 0")
    case True
    then have s4: "s < 4" by (simp add: shellCap_def)
    then have sc: "s = 0 \<or> s = 1 \<or> s = 2 \<or> s = 3" by arith
    have d1: "drop s shellCap = shellCap ! s # drop (s + 1) shellCap"
      using sc by (auto simp: shellCap_def)
    have d2: "drop s radii = radii ! s # drop (s + 1) radii"
      using sc by (auto simp: radii_def)
    have pos: "0 < shellCap ! s"
      using sc by (auto simp: shellCap_def)
    have m: "nat (min remaining (shellCap ! s)) = min (nat remaining) (nat (shellCap ! s))"
      using True pos by (simp add: min_def)
    have r: "nat (remaining - min remaining (shellCap ! s))
             = nat remaining - min (nat remaining) (nat (shellCap ! s))"
      using True pos by (cases "remaining \<le> shellCap ! s") (simp_all add: min_def nat_diff_distrib)
    show ?thesis
      apply (subst shellLoop.simps)
      using True 1 [OF True refl]
      apply (simp add: Let_def innerLoop_radius d1 d2 shells_def m r del: drop_Suc)
      done
  next
    case False
    then consider "\<not> s < length shellCap" | "remaining \<le> 0" by linarith
    then show ?thesis
    proof cases
      case 1
      then show ?thesis
        by (subst shellLoop.simps) (simp add: shells_def shellCap_def)
    next
      case 2
      then show ?thesis
        by (subst shellLoop.simps) (simp add: shells_zero)
    qed
  qed
qed

lemma spec_fill_sum: "sum_list (spec_fill n caps) = min n (sum_list caps)"
  by (induction caps arbitrary: n) (auto simp: min_def)

lemma shells_length: "length caps = length rads \<Longrightarrow> length (shells n caps rads) = min n (sum_list caps)"
proof -
  assume "length caps = length rads"
  then have "length (shells n caps rads) = sum_list (spec_fill n caps)"
    unfolding shells_def
    by (induction caps rads arbitrary: n rule: list_induct2) (auto simp: length_concat)
  then show ?thesis by (simp add: spec_fill_sum)
qed

lemma makeElectrons_radii:
  "map radius (makeElectronsForElement rs Z)
     = shells (nat (min Z 24)) [2, 8, 8, 18] [30, 50, 70, 90]"
  by (simp add: makeElectronsForElement_def shellLoop_radius shellCap_def radii_def)

text \<open>
  C2: the generator returns exactly \<open>Z\<close> electrons for \<open>1 \<le> Z \<le> 24\<close>, 24 for \<open>Z > 24\<close> and
  none for \<open>Z \<le> 0\<close>; the radii of the electrons, in order, are those of the shells with
  capacities 2, 8, 8, 18 and radii 30, 50, 70, 90 filled in order with
  \<open>min remaining capacity\<close> occupants each, and no other radius occurs.
\<close>

theorem makeElectrons_count_and_shells:
  "length (makeElectronsForElement rs Z) = (if Z \<le> 0 then 0 else if Z \<le> 24 then nat Z else 24)
   \<and> map radius (makeElectronsForElement rs Z)
       = concat (map2 replicate (spec_fill (nat (min Z 24)) [2, 8, 8, 18]) [30, 50, 70, 90])
   \<and> set (map radius (makeElectronsForElement rs Z)) \<subseteq> {30, 50, 70, 90}"
proof -
  note R = makeElectrons_radii [of rs Z]
  have "length (map radius (makeElectronsForElement rs Z)) = min (nat (min Z 24)) 36"
    unfolding R by (subst shells_length) simp_all
  then have L: "length (makeElectronsForElement rs Z)
                = (if Z \<le> 0 then 0 else if Z \<le> 24 then nat Z else 24)"
    by (auto simp: min_def)
  have S: "set (shells n caps rads) \<subseteq> set rads" for n caps rads
  proof (induction caps arbitrary: n rads)
    case Nil
    show ?case by (simp add: shells_def)
  next
    case (Cons c caps)
    show ?case
    proof (cases rads)
      case Nil
      then show ?thesis by (simp add: shells_def)
    next
      case (Cons r rads')
      with Cons.IH [of "n - min n c" rads'] show ?thesis
        by (auto simp: shells_def)
    qed
  qed
  have E: "set [30, 50, 70, 90 :: real] = {30, 50, 70, 90}" by simp
  have S': "set (map radius (makeElectronsForElement rs Z)) \<subseteq> {30, 50, 70, 90}"
    using S [of "nat (min Z 24)" "[2, 8, 8, 18]" "[30, 50, 70, 90]"]
    by (simp only: R E)
  have R': "map radius (makeElectronsForElement rs Z)
       = concat (map2 replicate (spec_fill (nat (min Z 24)) [2, 8, 8, 18]) [30, 50, 70, 90])"
    using R by (simp only: shells_def)
  from L R' S' show ?thesis by (intro conjI)
qed

theorem makeElectrons_count_and_shells_witness:
  "length (makeElectronsForElement (\<lambda>k. 7 * k) 11) = 11
   \<and> map radius (makeElectronsForElement (\<lambda>k. 7 * k) 11)
       = [30, 30, 50, 50, 50, 50, 50, 50, 50, 50, 70]
   \<and> length (makeElectronsForElement (\<lambda>k. 7 * k) 30) = 24
   \<and> length (makeElectronsForElement (\<lambda>k. 7 * k) (- 3)) = 0"
  using makeElectrons_count_and_shells [of "\<lambda>k. 7 * k" 11]
    makeElectrons_count_and_shells [of "\<lambda>k. 7 * k" 30]
    makeElectrons_count_and_shells [of "\<lambda>k. 7 * k" "- 3"]
  by (simp add: numeral_eq_Suc)

section \<open>The generator: speeds\<close>

lemma jitter_bounds:
  assumes "r < 100"
  shows "- rnd (1 / 10) \<le> jitter r \<and> jitter r \<le> rnd (1 / 10)"
proof -
  define q1 where "q1 = rnd (real r / 100)"
  define q2 where "q2 = rnd (q1 - 1 / 2)"
  let ?c2 = "13421773 / 67108864 :: real"
  let ?c1 = "13421773 / 134217728 :: real"
  have r: "rnd (real r) = real r"
    using assms rnd_of_int [of "int r"] by simp
  have c2: "rnd (1 / 5) = ?c2"
    using rnd_fifth by simp
  have "rnd 0 \<le> q1" "q1 \<le> rnd 1"
    unfolding q1_def using assms by (intro rnd_mono; simp)+
  then have q1: "0 \<le> q1" "q1 \<le> 1" by simp_all
  have "rnd (- (1 / 2)) \<le> q2" "q2 \<le> rnd (1 / 2)"
    unfolding q2_def using q1 by (intro rnd_mono; simp)+
  then have q2: "- (1 / 2) \<le> q2" "q2 \<le> 1 / 2" by simp_all
  have c1: "rnd ?c1 = ?c1"
    using rnd_exact [of 13421773 "- 27"] by (simp add: power_int_minus)
  have j: "jitter r = rnd (q2 * ?c2)"
    by (simp add: jitter_def float_ops r q1_def q2_def c2)
  have "rnd (- ?c1) \<le> rnd (q2 * ?c2)" "rnd (q2 * ?c2) \<le> rnd ?c1"
    using q2 by (intro rnd_mono; simp)+
  then show ?thesis
    by (simp add: j rnd_minus c1 rnd_tenth)
qed

lemma innerLoop_speed:
  "e' \<in> set (innerLoop rs s n i k e) \<Longrightarrow>
     e' \<in> set e \<or> (radius e' = radii ! s \<and> (\<exists>j. speed e' = fadd (baseSpeed s) (jitter (rs j mod 100))))"
proof (induction rs s n i k e rule: innerLoop.induct)
  case (1 rs s inShell i k e)
  show ?case
  proof (cases "i < inShell")
    case True
    with "1.prems" "1.IH" [OF True refl refl refl] show ?thesis
      by (subst (asm) innerLoop.simps) (auto simp: Let_def baseSpeed_def jitter_def)
  next
    case False
    with "1.prems" show ?thesis by (subst (asm) innerLoop.simps) simp
  qed
qed

lemma shellLoop_speed:
  "e' \<in> set (shellLoop rs s r k e) \<Longrightarrow>
     e' \<in> set e \<or> (\<exists>s' < 4. radius e' = radii ! s'
        \<and> (\<exists>j. speed e' = fadd (baseSpeed s') (jitter (rs j mod 100))))"
proof (induction rs s r k e rule: shellLoop.induct)
  case (1 rs s remaining k e)
  show ?case
  proof (cases "s < length shellCap \<and> remaining > 0")
    case True
    then have s4: "s < 4" by (simp add: shellCap_def)
    from "1.prems" True have "e' \<in> set (shellLoop rs (s + 1) (remaining - min remaining (shellCap ! s))
        (k + nat (min remaining (shellCap ! s))) (innerLoop rs s (min remaining (shellCap ! s)) 0 k e))"
      by (subst (asm) shellLoop.simps) (simp add: Let_def)
    from "1.IH" [OF True refl this] innerLoop_speed [of e' rs s _ 0 k e] s4
    show ?thesis by blast
  next
    case False
    with "1.prems" show ?thesis by (subst (asm) shellLoop.simps) auto
  qed
qed

lemma jitter_upper:
  assumes "r < 100"
  shows "jitter r \<le> 1 / 10"
proof -
  define q1 where "q1 = rnd (real r / 100)"
  define q2 where "q2 = rnd (q1 - 1 / 2)"
  let ?c2 = "13421773 / 67108864 :: real"
  let ?v = "3355443 / 33554432 :: real"
  have r: "rnd (real r) = real r"
    using assms rnd_of_int [of "int r"] by simp
  have c2: "rnd (1 / 5) = ?c2"
    using rnd_fifth by simp
  have e1: "rnd (127 / 128) = 127 / 128"
    using rnd_exact [of 127 "- 7"] by (simp add: power_int_minus)
  have e2: "rnd (63 / 128) = 63 / 128"
    using rnd_exact [of 63 "- 7"] by (simp add: power_int_minus)
  have "real r \<le> 99" using assms by simp
  then have "real r / 100 \<le> 127 / 128" by simp
  then have "q1 \<le> rnd (127 / 128)"
    unfolding q1_def by (rule rnd_mono)
  then have "q1 - 1 / 2 \<le> 63 / 128" by (simp add: e1)
  then have "q2 \<le> rnd (63 / 128)"
    unfolding q2_def by (rule rnd_mono)
  then have q2: "q2 \<le> 63 / 128" by (simp add: e2)
  have v: "rnd ?v = ?v"
    using rnd_exact [of 3355443 "- 25"] by (simp add: power_int_minus)
  have j: "jitter r = rnd (q2 * ?c2)"
    by (simp add: jitter_def float_ops r q1_def q2_def c2)
  have "q2 * ?c2 \<le> 63 / 128 * ?c2"
    using q2 by (intro mult_right_mono) simp_all
  then have "q2 * ?c2 \<le> ?v" by simp
  then have "rnd (q2 * ?c2) \<le> rnd ?v"
    by (rule rnd_mono)
  then have "jitter r \<le> ?v"
    by (simp only: j v)
  then show ?thesis by simp
qed

text \<open>The Hydrogen atom generated when every draw is 0.\<close>

lemma jitter_0: "jitter 0 = - (13421773 / 134217728)"
proof -
  have e: "rnd (- (13421773 / 134217728)) = - (13421773 / 134217728)"
    using rnd_exact [of "- 13421773" "- 27"] by (simp add: power_int_minus)
  have c2: "rnd (1 / 5) = 13421773 / 67108864"
    using rnd_fifth by simp
  show ?thesis
    by (simp add: jitter_def float_ops c2 e)
qed

lemma baseSpeed_0: "baseSpeed 0 = 13421773 / 16777216"
proof -
  have e: "rnd (13421773 / 16777216) = 13421773 / 16777216"
    using rnd_exact [of 13421773 "- 24"] by (simp add: power_int_minus)
  have c: "rnd (4 / 5) = 13421773 / 16777216"
    using rnd_four_fifths by simp
  show ?thesis
    by (simp add: baseSpeed_def float_ops c e)
qed

lemma hydrogen_speed: "fadd (baseSpeed 0) (jitter 0) = 11744051 / 16777216"
  unfolding fadd_def baseSpeed_0 jitter_0
  by (subst rnd_eval [of "- 1"]) (simp_all add: round_even_def power_int_minus)

lemma hydrogen_electrons:
  "makeElectronsForElement (\<lambda>k. 0) 1
     = [\<lparr>radius = 30, angle = 0, speed = fadd (baseSpeed 0) (jitter 0)\<rparr>]"
  unfolding makeElectronsForElement_def
  apply (subst shellLoop.simps)
  apply (simp add: shellCap_def Let_def)
  apply (subst innerLoop.simps)
  apply (simp add: Let_def)
  apply (subst innerLoop.simps)
  apply (simp add: Let_def)
  apply (subst shellLoop.simps)
  apply (simp add: shellCap_def radii_def baseSpeed_def jitter_def float_ops)
  done

text \<open>
  C9, as stated, fails: when the draw \<open>rand() % 100\<close> is 0 the variance added to the speed
  of the generated electron is \<open>-0.1f = -13421773/134217728\<close>, which is below \<open>-0.1\<close>, so
  it is outside \<open>[-0.1, +0.1]\<close>; and the base speed of shell 0 is \<open>0.8f\<close>, which is not
  \<open>0.8 * (1 - 0.1 * 0)\<close>.
\<close>

theorem jitter_below_interval_counterexample:
  "map speed (makeElectronsForElement (\<lambda>k. 0) 1) = [fadd (baseSpeed 0) (jitter 0)]
   \<and> jitter 0 = - (13421773 / 134217728)
   \<and> jitter 0 < - (1 / 10)
   \<and> baseSpeed 0 = 13421773 / 16777216
   \<and> baseSpeed 0 \<noteq> 8 / 10 * (1 - 1 / 10 * real 0)"
  by (simp add: hydrogen_electrons jitter_0 baseSpeed_0)

text \<open>
  C9, amended: every generated electron lies in one of the four shells \<open>s\<close>, and its speed
  is the single-precision sum of the base speed of that shell, \<open>0.8f\<close> for even \<open>s\<close> and
  \<open>-0.5f\<close> for odd \<open>s\<close> multiplied by \<open>1 - s * 0.1f\<close>, and the variance of one draw
  \<open>rand() % 100\<close>; the draw is below 100, and for every draw below 100 the variance lies
  between \<open>-0.1f\<close> and \<open>0.1\<close>, where \<open>0.1f = 13421773/134217728\<close> is the single-precision
  constant, a little above \<open>0.1\<close>; the draw 0 gives exactly \<open>-0.1f\<close>. Every operation is
  the single-precision one.
\<close>

theorem electron_speed_base_plus_jitter:
  "(e \<in> set (makeElectronsForElement rs Z) \<longrightarrow>
      (\<exists>s < 4. \<exists>k. radius e = radii ! s
         \<and> speed e = fadd (baseSpeed s) (jitter (rs k mod 100))))
   \<and> baseSpeed s
       = fmul (if even s then rnd (8 / 10) else - rnd (5 / 10))
              (fsub 1 (fmul (float_of_nat s) (rnd (1 / 10))))
   \<and> rs k mod 100 < 100
   \<and> (r < 100 \<longrightarrow> - rnd (1 / 10) \<le> jitter r \<and> jitter r \<le> 1 / 10)
   \<and> rnd (1 / 10) = 13421773 / 134217728
   \<and> jitter 0 = - rnd (1 / 10)"
proof -
  have "e \<in> set (makeElectronsForElement rs Z) \<longrightarrow>
      (\<exists>s < 4. \<exists>k. radius e = radii ! s
         \<and> speed e = fadd (baseSpeed s) (jitter (rs k mod 100)))"
    using shellLoop_speed [of e rs 0 "min Z 24" 0 "[]"]
    by (auto simp: makeElectronsForElement_def)
  moreover have "baseSpeed s
       = fmul (if even s then rnd (8 / 10) else - rnd (5 / 10))
              (fsub 1 (fmul (float_of_nat s) (rnd (1 / 10))))"
    by (simp add: baseSpeed_def even_iff_mod_2_eq_zero)
  moreover have "rs k mod 100 < 100" by simp
  moreover have "r < 100 \<longrightarrow> - rnd (1 / 10) \<le> jitter r \<and> jitter r \<le> 1 / 10"
    using jitter_bounds [of r] jitter_upper [of r] by simp
  moreover have "jitter 0 = - rnd (1 / 10)"
    by (simp only: jitter_0 rnd_tenth)
  ultimately show ?thesis
    using rnd_tenth by (intro conjI)
qed

theorem electron_speed_base_plus_jitter_witness:
  "radius (last (makeElectronsForElement (\<lambda>k. k) 3)) = radii ! 1
   \<and> (\<exists>k. speed (last (makeElectronsForElement (\<lambda>k. k) 3))
             = fadd (baseSpeed 1) (jitter (k mod 100)))
   \<and> radius (hd (makeElectronsForElement (\<lambda>k. 0) 1)) = radii ! 0
   \<and> speed (hd (makeElectronsForElement (\<lambda>k. 0) 1)) = fadd (baseSpeed 0) (jitter 0)
   \<and> - rnd (1 / 10) \<le> jitter 0 \<and> jitter 0 \<le> 1 / 10
   \<and> - rnd (1 / 10) \<le> jitter 99 \<and> jitter 99 \<le> 1 / 10"
proof -
  let ?li = "makeElectronsForElement (\<lambda>k. k) 3"
  let ?h = "makeElectronsForElement (\<lambda>k. 0) 1"
  have rl: "map radius ?li = [30, 30, 50]"
    by (simp add: makeElectrons_radii shells_def numeral_eq_Suc)
  then have nl: "?li \<noteq> []" by auto
  then have "radius (last ?li) = last (map radius ?li)"
    by (simp add: last_map)
  then have r50: "radius (last ?li) = 50" by (simp add: rl)
  have ml: "last ?li \<in> set ?li" using nl by simp
  have rh: "map radius ?h = [30]"
    by (simp add: makeElectrons_radii shells_def)
  then have nh: "?h \<noteq> []" by auto
  then have "radius (hd ?h) = hd (map radius ?h)"
    by (simp add: hd_map)
  then have r30: "radius (hd ?h) = 30" by (simp add: rh)
  have mh: "hd ?h \<in> set ?h" using nh by simp
  have shell: "s = j" if "s < 4" "radii ! s = radii ! j" "j < 4" for s j :: nat
  proof -
    have "s = 0 \<or> s = 1 \<or> s = 2 \<or> s = 3" "j = 0 \<or> j = 1 \<or> j = 2 \<or> j = 3"
      using that by arith+
    with that(2) show ?thesis by (auto simp: radii_def)
  qed
  note L = electron_speed_base_plus_jitter [of "last ?li" "\<lambda>k. k" 3 0 0 0]
  note H = electron_speed_base_plus_jitter [of "hd ?h" "\<lambda>k. 0" 1 0 0 99]
  note J = electron_speed_base_plus_jitter [of "hd ?h" "\<lambda>k. 0" 1 0 0 0]
  from L [THEN conjunct1] ml
  obtain s k where s: "s < 4" "radius (last ?li) = radii ! s"
      "speed (last ?li) = fadd (baseSpeed s) (jitter (k mod 100))"
    by blast
  have "radii ! s = radii ! 1" using s(2) r50 by (simp add: radii_def)
  with s(1) have "s = 1" by (intro shell) simp_all
  with s have l: "radius (last ?li) = radii ! 1
      \<and> (\<exists>k. speed (last ?li) = fadd (baseSpeed 1) (jitter (k mod 100)))"
    by auto
  from H [THEN conjunct1] mh
  obtain s' k' where s': "s' < 4" "radius (hd ?h) = radii ! s'"
      "speed (hd ?h) = fadd (baseSpeed s') (jitter (0 mod 100))"
    by blast
  have "radii ! s' = radii ! 0" using s'(2) r30 by (simp add: radii_def)
  with s'(1) have "s' = 0" by (intro shell) simp_all
  with s' have h: "radius (hd ?h) = radii ! 0 \<and> speed (hd ?h) = fadd (baseSpeed 0) (jitter 0)"
    by simp
  from H [THEN conjunct2, THEN conjunct2, THEN conjunct2, THEN conjunct1]
  have j99: "- rnd (1 / 10) \<le> jitter 99 \<and> jitter 99 \<le> 1 / 10" by simp
  from J [THEN conjunct2, THEN conjunct2, THEN conjunct2, THEN conjunct1]
  have j0: "- rnd (1 / 10) \<le> jitter 0 \<and> jitter 0 \<le> 1 / 10" by simp
  from l h j0 j99 show ?thesis by (intro conjI) simp_all
qed

section \<open>The per-frame update\<close>

lemma updateAtom_exclusive: "exclusive a \<Longrightarrow> exclusive (updateAtom t a)"
  by (auto simp: exclusive_def updateAtom_def Let_def split: option.splits)

lemma updateAtom_pending:
  "scheduledStart a = Some s \<Longrightarrow> t < s \<Longrightarrow>
     active (updateAtom t a) = active a \<and> scheduledStart (updateAtom t a) = Some s"
  by (simp add: updateAtom_def Let_def)

lemma updateAtom_fires:
  "scheduledStart a = Some s \<Longrightarrow> s \<le> t \<Longrightarrow>
     active (updateAtom t a) \<and> scheduledStart (updateAtom t a) = None"
  by (simp add: updateAtom_def Let_def)

lemma updateAtom_none:
  "scheduledStart a = None \<Longrightarrow>
     scheduledStart (updateAtom t a) = None \<and> active (updateAtom t a) = active a"
  by (simp add: updateAtom_def Let_def)

lemma fold_updateAtom_none:
  "scheduledStart a = None \<Longrightarrow>
     scheduledStart (fold updateAtom ts a) = None \<and> active (fold updateAtom ts a) = active a"
  by (induction ts arbitrary: a) (simp_all add: updateAtom_none)

lemma fold_updateAtom_pending:
  "scheduledStart a = Some s \<Longrightarrow> \<forall>t \<in> set ts. t < s \<Longrightarrow>
     active (fold updateAtom ts a) = active a \<and> scheduledStart (fold updateAtom ts a) = Some s"
  by (induction ts arbitrary: a) (simp_all add: updateAtom_pending)

lemma timeUpdate_nth:
  "i < length (atoms st) \<Longrightarrow> atoms (timeUpdate t st) ! i = updateAtom t (atoms st ! i)"
  by (simp add: timeUpdate_def)

lemma fold_timeUpdate_atoms:
  "atoms (fold timeUpdate ts st) = map (fold updateAtom ts) (atoms st)"
  by (induction ts arbitrary: st) (simp_all add: timeUpdate_def)

lemma transitions_none: "scheduledStart a = None \<Longrightarrow> transitions ts a = 0"
  by (induction ts arbitrary: a) (simp_all add: updateAtom_none)

lemma transitions_le_1: "transitions ts a \<le> 1"
proof (induction ts arbitrary: a)
  case Nil
  show ?case by simp
next
  case (Cons t ts)
  show ?case
  proof (cases "scheduledStart (updateAtom t a)")
    case None
    then show ?thesis by (simp add: transitions_none)
  next
    case (Some s)
    then show ?thesis using Cons [of "updateAtom t a"] by simp
  qed
qed

lemma scheduleSelected_nth:
  "i < length (atoms st) \<Longrightarrow>
     atoms (scheduleSelected env st) ! i =
       (if selected (atoms st ! i) then (atoms st ! i)\<lparr>scheduledStart := Some (fadd (clock env) 2)\<rparr>
        else atoms st ! i)"
  by (simp add: scheduleSelected_def Let_def)

lemma toggleActiveSelected_nth:
  "i < length (atoms st) \<Longrightarrow>
     atoms (toggleActiveSelected st) ! i =
       (if selected (atoms st ! i) then (atoms st ! i)\<lparr>active := \<not> active (atoms st ! i)\<rparr>
        else atoms st ! i)"
  by (simp add: toggleActiveSelected_def)

text \<open>
  C3, amended: let a selected atom be scheduled by \<open>scheduleSelected\<close> at clock reading
  \<open>now\<close>, so that its \<open>scheduledStart\<close> is \<open>now + 2.0f\<close>. Per-frame updates at times strictly
  below \<open>scheduledStart\<close> leave its \<open>active\<close> flag as it was, so that an inactive atom stays
  inactive and an active one stays active, with the schedule pending; the first update at
  a time at or after \<open>scheduledStart\<close> sets \<open>active\<close> and clears \<open>scheduledStart\<close> in that same
  update; afterwards the schedule stays cleared under every further update, and in every
  sequence of updates the atom makes the Scheduled-to-Active transition at most once.
\<close>

theorem scheduled_to_active_once:
  assumes i: "i < length (atoms st)"
    and sel: "selected (atoms st ! i)"
    and early: "\<forall>t \<in> set ts. t < fadd (clock env) 2"
    and due: "fadd (clock env) 2 \<le> t'"
  shows "scheduledStart (atoms (scheduleSelected env st) ! i) = Some (fadd (clock env) 2)
    \<and> active (atoms (fold timeUpdate ts (scheduleSelected env st)) ! i) = active (atoms st ! i)
    \<and> scheduledStart (atoms (fold timeUpdate ts (scheduleSelected env st)) ! i)
        = Some (fadd (clock env) 2)
    \<and> active (atoms (timeUpdate t' (fold timeUpdate ts (scheduleSelected env st))) ! i)
    \<and> scheduledStart (atoms (timeUpdate t' (fold timeUpdate ts (scheduleSelected env st))) ! i)
        = None
    \<and> scheduledStart
         (atoms (fold timeUpdate ts' (timeUpdate t' (fold timeUpdate ts (scheduleSelected env st)))) ! i)
        = None
    \<and> transitions us (atoms (scheduleSelected env st) ! i) \<le> 1"
proof -
  define a0 where "a0 = atoms (scheduleSelected env st) ! i"
  define s where "s = fadd (clock env) 2"
  have len: "length (atoms (scheduleSelected env st)) = length (atoms st)"
    by (simp add: scheduleSelected_def Let_def)
  have a0: "scheduledStart a0 = Some s" "active a0 = active (atoms st ! i)"
    using i sel by (simp_all add: a0_def s_def scheduleSelected_nth)
  have nth_fold: "atoms (fold timeUpdate xs (scheduleSelected env st)) ! i = fold updateAtom xs a0" for xs
    using i len by (simp add: fold_timeUpdate_atoms a0_def)
  have pend: "active (fold updateAtom ts a0) = active a0 \<and> scheduledStart (fold updateAtom ts a0) = Some s"
    using a0(1) early by (intro fold_updateAtom_pending) (simp_all add: s_def)
  have nth_upd: "atoms (timeUpdate t' (fold timeUpdate ts (scheduleSelected env st))) ! i
                 = updateAtom t' (fold updateAtom ts a0)"
    using i len by (simp add: timeUpdate_def fold_timeUpdate_atoms a0_def)
  have fire: "active (updateAtom t' (fold updateAtom ts a0))
              \<and> scheduledStart (updateAtom t' (fold updateAtom ts a0)) = None"
    using pend due by (intro updateAtom_fires [of _ s]) (simp_all add: s_def)
  have nth_after: "atoms (fold timeUpdate ts' (timeUpdate t' (fold timeUpdate ts (scheduleSelected env st)))) ! i
                 = fold updateAtom ts' (updateAtom t' (fold updateAtom ts a0))"
    using i len by (simp add: timeUpdate_def fold_timeUpdate_atoms a0_def)
  have after: "scheduledStart (fold updateAtom ts' (updateAtom t' (fold updateAtom ts a0))) = None"
    using fire by (simp add: fold_updateAtom_none)
  show ?thesis
    using a0 pend fire after transitions_le_1 [of us a0]
    unfolding nth_fold nth_upd nth_after
    by (simp add: a0_def [symmetric] s_def [symmetric])
qed

theorem scheduled_to_active_once_witness:
  "scheduledStart (atoms (scheduleSelected demoEnv stateAB) ! 0) = Some 7
   \<and> \<not> active (atoms (fold timeUpdate [6, rnd (69 / 10)] (scheduleSelected demoEnv stateAB)) ! 0)
   \<and> scheduledStart (atoms (fold timeUpdate [6, rnd (69 / 10)] (scheduleSelected demoEnv stateAB)) ! 0)
       = Some 7
   \<and> active (atoms (timeUpdate (rnd (71 / 10))
         (fold timeUpdate [6, rnd (69 / 10)] (scheduleSelected demoEnv stateAB))) ! 0)
   \<and> scheduledStart (atoms (timeUpdate (rnd (71 / 10))
         (fold timeUpdate [6, rnd (69 / 10)] (scheduleSelected demoEnv stateAB))) ! 0) = None
   \<and> transitions [6, rnd (69 / 10), rnd (71 / 10), 8] (atoms (scheduleSelected demoEnv stateAB) ! 0) = 1
   \<and> active (atoms (fold timeUpdate [6, rnd (69 / 10)] (scheduleSelected demoEnv stateAB)) ! 1)
   \<and> scheduledStart (atoms (fold timeUpdate [6, rnd (69 / 10)] (scheduleSelected demoEnv stateAB)) ! 1)
       = Some 7
   \<and> scheduledStart (atoms (timeUpdate (rnd (71 / 10))
         (fold timeUpdate [6, rnd (69 / 10)] (scheduleSelected demoEnv stateAB))) ! 1) = None"
proof -
  have c: "fadd (clock demoEnv) 2 = 7" by (simp add: demoEnv_def fadd_def)
  have h: "0 < length (atoms stateAB)" "selected (atoms stateAB ! 0)"
    "\<forall>t \<in> set [6, rnd (69 / 10)]. t < fadd (clock demoEnv) 2" "fadd (clock demoEnv) 2 \<le> rnd (71 / 10)"
    by (simp_all add: stateAB_def atomA_def c rnd_6_9 rnd_7_1)
  have h': "1 < length (atoms stateAB)" "selected (atoms stateAB ! 1)"
    "\<forall>t \<in> set [6, rnd (69 / 10)]. t < fadd (clock demoEnv) 2" "fadd (clock demoEnv) 2 \<le> rnd (71 / 10)"
    by (simp_all add: stateAB_def atomB_def c rnd_6_9 rnd_7_1)
  have f: "\<not> active (atoms stateAB ! 0)" "active (atoms stateAB ! 1)"
    by (simp_all add: stateAB_def atomA_def atomB_def)
  have t: "transitions [6, rnd (69 / 10), rnd (71 / 10), 8] (atoms (scheduleSelected demoEnv stateAB) ! 0) = 1"
    by (simp add: stateAB_def atomA_def atomB_def scheduleSelected_def c rnd_6_9 rnd_7_1
        updateAtom_def Let_def)
  from scheduled_to_active_once [OF h, of "[]" "[6, rnd (69 / 10), rnd (71 / 10), 8]"]
    scheduled_to_active_once [OF h', of "[]" "[]"] t f
  show ?thesis by (simp add: c)
qed

lemma step_value: "fadd 0 (fmul (11744051 / 16777216) (fdiv 1 60)) = 3131747 / 268435456"
proof -
  have a: "fmul (11744051 / 16777216) (fdiv 1 60) = 3131747 / 268435456"
    unfolding fmul_def fdiv_def rnd_sixtieth
    by (subst rnd_eval [of "- 7"]) (simp_all add: round_even_def power_int_minus)
  have e: "rnd (3131747 / 268435456) = 3131747 / 268435456"
    using rnd_exact [of 3131747 "- 28"] by (simp add: power_int_minus)
  show ?thesis by (simp add: fadd_def a e)
qed

lemma step_half: "fadd 0 (fmul (1 / 2) (fdiv 1 60)) = 8947849 / 1073741824"
proof -
  have e: "rnd (8947849 / 1073741824) = 8947849 / 1073741824"
    using rnd_exact [of 8947849 "- 30"] by (simp add: power_int_minus)
  show ?thesis by (simp add: fadd_def fmul_def fdiv_def rnd_sixtieth e)
qed

text \<open>
  C8, amended: in a per-frame update at time \<open>t\<close>, an atom that is active before the update,
  or whose \<open>scheduledStart\<close> is at or before \<open>t\<close> (the update first sets it active), is
  active after the update and the angle of each of its electrons is replaced by the
  single-precision value of \<open>angle + speed * (1.f / 60.f)\<close>, the quotient, the product and
  the sum each rounded; an atom that is inactive and has no \<open>scheduledStart\<close> at or before
  \<open>t\<close> stays inactive and keeps its electrons as they are. Radii and speeds never change,
  and \<open>toggleActiveSelected\<close> leaves the electrons of every atom, hence every frozen
  angle, unchanged.
\<close>

theorem orbit_integrator_step:
  assumes "i < length (atoms st)"
  shows "(active (atoms st ! i) \<or> (\<exists>s. scheduledStart (atoms st ! i) = Some s \<and> s \<le> t) \<longrightarrow>
            active (atoms (timeUpdate t st) ! i)
            \<and> electrons (atoms (timeUpdate t st) ! i)
              = map (\<lambda>e. e\<lparr>angle := fadd (angle e) (fmul (speed e) (fdiv 1 60))\<rparr>)
                  (electrons (atoms st ! i)))
    \<and> (\<not> active (atoms st ! i) \<and> (\<forall>s. scheduledStart (atoms st ! i) = Some s \<longrightarrow> t < s) \<longrightarrow>
            \<not> active (atoms (timeUpdate t st) ! i)
            \<and> electrons (atoms (timeUpdate t st) ! i) = electrons (atoms st ! i))
    \<and> map radius (electrons (atoms (timeUpdate t st) ! i)) = map radius (electrons (atoms st ! i))
    \<and> map speed (electrons (atoms (timeUpdate t st) ! i)) = map speed (electrons (atoms st ! i))
    \<and> electrons (atoms (toggleActiveSelected st) ! i) = electrons (atoms st ! i)"
  using assms
  by (auto simp: timeUpdate_nth toggleActiveSelected_nth updateAtom_def Let_def o_def
      split: option.splits)

theorem orbit_integrator_step_witness:
  "\<not> active (atoms (timeUpdate 9 stateAB) ! 0)
   \<and> electrons (atoms (timeUpdate 9 stateAB) ! 0) = [\<lparr>radius = 30, angle = 0, speed = 1 / 2\<rparr>]
   \<and> active (atoms (timeUpdate 9 stateAB) ! 1)
   \<and> electrons (atoms (timeUpdate 9 stateAB) ! 1)
       = [\<lparr>radius = 30, angle = fadd 1 (fmul (- (1 / 2)) (fdiv 1 60)), speed = - (1 / 2)\<rparr>]
   \<and> active (atoms (timeUpdate 8 (scheduleSelected demoEnv stateAB)) ! 0)
   \<and> electrons (atoms (timeUpdate 8 (scheduleSelected demoEnv stateAB)) ! 0)
       = [\<lparr>radius = 30, angle = 8947849 / 1073741824, speed = 1 / 2\<rparr>]
   \<and> electrons (atoms (toggleActiveSelected stateAB) ! 0) = [\<lparr>radius = 30, angle = 0, speed = 1 / 2\<rparr>]"
proof -
  have c: "fadd (clock demoEnv) 2 = 7" by (simp add: demoEnv_def fadd_def)
  have l: "0 < length (atoms stateAB)" "1 < length (atoms stateAB)"
    "0 < length (atoms (scheduleSelected demoEnv stateAB))"
    by (simp_all add: stateAB_def scheduleSelected_def Let_def)
  have a: "atoms stateAB ! 0 = atomA" "atoms stateAB ! 1 = atomB"
    "atoms (scheduleSelected demoEnv stateAB) ! 0 = atomA\<lparr>scheduledStart := Some 7\<rparr>"
    by (simp_all add: stateAB_def scheduleSelected_def atomA_def atomB_def c Let_def)
  from orbit_integrator_step [OF l(1), of 9] orbit_integrator_step [OF l(2), of 9]
    orbit_integrator_step [OF l(3), of 8]
  show ?thesis
    unfolding a by (simp add: atomA_def atomB_def step_half)
qed

section \<open>Identifiers and links under the operations\<close>

lemma updateFirst_ids:
  "(\<And>a. id_atom (f a) = id_atom a) \<Longrightarrow> map id_atom (updateFirst P f as) = map id_atom as"
  by (induction as) simp_all

lemma ids_toggleActiveSelected [simp]: "idsOf (toggleActiveSelected st) = idsOf st"
  by (simp add: idsOf_def toggleActiveSelected_def o_def cong: map_cong)

lemma ids_scheduleSelected [simp]: "idsOf (scheduleSelected env st) = idsOf st"
  by (simp add: idsOf_def scheduleSelected_def Let_def o_def cong: map_cong)

lemma id_updateAtom [simp]: "id_atom (updateAtom t a) = id_atom a"
  by (simp add: updateAtom_def Let_def split: option.splits)

lemma ids_timeUpdate [simp]: "idsOf (timeUpdate t st) = idsOf st"
  by (simp add: idsOf_def timeUpdate_def o_def)

lemma ids_linkPair [simp]: "idsOf (linkPair st) = idsOf st"
  by (simp add: idsOf_def linkPair_def Let_def)

lemma ids_onMouseMoved [simp]: "idsOf (onMouseMoved env mx my st) = idsOf st"
  by (simp add: idsOf_def onMouseMoved_def Let_def updateFirst_ids)

lemma rowAt_less: "rowAt m yy i as = Some j \<Longrightarrow> i \<le> j \<and> j < i + length as"
proof (induction as arbitrary: yy i)
  case Nil
  then show ?case by simp
next
  case (Cons a as)
  show ?case
  proof (cases "contains (FloatRect 16 yy (fsub SIDEBAR_W 32) 22) m")
    case True
    with Cons.prems show ?thesis by (simp del: contains.simps)
  next
    case False
    with Cons.prems have "rowAt m (fadd yy 24) (i + 1) as = Some j"
      by (simp del: contains.simps)
    from Cons.IH [OF this] show ?thesis by simp
  qed
qed

lemma ids_listClick [simp]: "idsOf (listClick env m st) = idsOf st"
proof (cases "rowAt m yList 0 (atoms st)")
  case None
  then show ?thesis by (simp add: listClick_def)
next
  case (Some j)
  then have j: "j < length (atoms st)" using rowAt_less [of m yList 0 "atoms st" j] by simp
  have "map id_atom ((atoms st)[j := (atoms st ! j)\<lparr>selected := b\<rparr>]) = map id_atom (atoms st)" for b
    using j by (simp add: map_update list_update_same_conv)
  moreover have "map id_atom ((map (\<lambda>z. z\<lparr>selected := False\<rparr>) (atoms st))[j := (atoms st ! j)\<lparr>selected := True\<rparr>])
        = map id_atom (atoms st)"
    using j by (simp add: map_update list_update_same_conv o_def)
  ultimately show ?thesis
    using Some by (simp add: idsOf_def listClick_def)
qed

lemma ids_canvasClick [simp]: "idsOf (canvasClick env m st) = idsOf st"
  by (simp add: idsOf_def canvasClick_def Let_def o_def split: option.splits cong: map_cong)

lemma links_unchanged [simp]:
  "links (toggleActiveSelected st) = links st"
  "links (scheduleSelected env st) = links st"
  "links (timeUpdate t st) = links st"
  "links (onMouseMoved env mx my st) = links st"
  "links (listClick env m st) = links st"
  "links (canvasClick env m st) = links st"
  "links (addAtom env st) = links st"
  "links (prevElement st) = links st"
  "links (nextElement st) = links st"
  "links (onLeftReleased st) = links st"
  by (simp_all add: toggleActiveSelected_def scheduleSelected_def timeUpdate_def onMouseMoved_def
      listClick_def canvasClick_def addAtom_def prevElement_def nextElement_def onLeftReleased_def
      Let_def split: option.splits)

lemma nextId_unchanged [simp]:
  "nextId (toggleActiveSelected st) = nextId st"
  "nextId (scheduleSelected env st) = nextId st"
  "nextId (timeUpdate t st) = nextId st"
  "nextId (onMouseMoved env mx my st) = nextId st"
  "nextId (listClick env m st) = nextId st"
  "nextId (canvasClick env m st) = nextId st"
  "nextId (linkPair st) = nextId st"
  "nextId (removeSelected st) = nextId st"
  "nextId (clearAll st) = nextId st"
  "nextId (prevElement st) = nextId st"
  "nextId (nextElement st) = nextId st"
  "nextId (onLeftReleased st) = nextId st"
  by (simp_all add: toggleActiveSelected_def scheduleSelected_def timeUpdate_def onMouseMoved_def
      listClick_def canvasClick_def linkPair_def removeSelected_def clearAll_def prevElement_def
      nextElement_def onLeftReleased_def Let_def split: option.splits)

lemma selectedElement_unchanged [simp]:
  "selectedElement (toggleActiveSelected st) = selectedElement st"
  "selectedElement (scheduleSelected env st) = selectedElement st"
  "selectedElement (timeUpdate t st) = selectedElement st"
  "selectedElement (onMouseMoved env mx my st) = selectedElement st"
  "selectedElement (listClick env m st) = selectedElement st"
  "selectedElement (canvasClick env m st) = selectedElement st"
  "selectedElement (linkPair st) = selectedElement st"
  "selectedElement (removeSelected st) = selectedElement st"
  "selectedElement (clearAll st) = selectedElement st"
  "selectedElement (addAtom env st) = selectedElement st"
  "selectedElement (onLeftReleased st) = selectedElement st"
  by (simp_all add: toggleActiveSelected_def scheduleSelected_def timeUpdate_def onMouseMoved_def
      listClick_def canvasClick_def linkPair_def removeSelected_def clearAll_def addAtom_def
      onLeftReleased_def Let_def split: option.splits)

lemma ids_simple [simp]:
  "idsOf (prevElement st) = idsOf st"
  "idsOf (nextElement st) = idsOf st"
  "idsOf (onLeftReleased st) = idsOf st"
  "idsOf (clearAll st) = []"
  "idsOf (addAtom env st) = idsOf st @ [nextId st]"
  "idsOf (removeSelected st)
     = filter (\<lambda>k. k \<notin> id_atom ` {a \<in> set (atoms st). selected a}) (idsOf st)"
  by (simp_all add: idsOf_def prevElement_def nextElement_def onLeftReleased_def clearAll_def
      addAtom_def removeSelected_def Let_def filter_map o_def)

lemma noDangling_ids: "noDangling st = list_all (\<lambda>L. aId L \<in> set (idsOf st) \<and> bId L \<in> set (idsOf st)) (links st)"
  by (simp add: noDangling_def idsOf_def)

lemma noDangling_same:
  "links st' = links st \<Longrightarrow> set (idsOf st) \<subseteq> set (idsOf st') \<Longrightarrow> noDangling st \<Longrightarrow> noDangling st'"
  by (auto simp: noDangling_ids list_all_iff)

lemma links_removeSelected:
  "links (removeSelected st)
     = filter (\<lambda>L. aId L \<notin> id_atom ` {a \<in> set (atoms st). selected a}
                  \<and> bId L \<notin> id_atom ` {a \<in> set (atoms st). selected a}) (links st)"
  by (simp add: removeSelected_def Let_def)

lemma noDangling_removeSelected: "noDangling st \<Longrightarrow> noDangling (removeSelected st)"
  by (auto simp: noDangling_ids links_removeSelected list_all_iff)

lemma noDangling_clearAll: "noDangling (clearAll st)"
  by (simp add: noDangling_def clearAll_def)

lemma linkPair_links:
  "links (linkPair st) = links st \<or>
   (\<exists>p q. filter selected (atoms st) = [p, q]
      \<and> links (linkPair st)
          = links st @ [\<lparr>aId = min (id_atom p) (id_atom q), bId = max (id_atom p) (id_atom q)\<rparr>]
      \<and> \<not> list_ex (\<lambda>L. aId L = min (id_atom p) (id_atom q) \<and> bId L = max (id_atom p) (id_atom q))
            (links st))"
proof (cases "length (filter selected (atoms st)) = 2")
  case False
  then show ?thesis by (simp add: linkPair_def)
next
  case True
  then obtain p q where pq: "filter selected (atoms st) = [p, q]"
    by (auto simp: length_Suc_conv numeral_2_eq_2)
  show ?thesis
    by (auto simp: linkPair_def pq Let_def min_def max_def)
qed

lemma selected_mem: "filter selected as = [p, q] \<Longrightarrow> p \<in> set as \<and> q \<in> set as"
  using filter_is_subset [of selected as] by simp

lemma noDangling_linkPair:
  assumes "noDangling st"
  shows "noDangling (linkPair st)"
proof -
  from linkPair_links [of st] show ?thesis
  proof
    assume "links (linkPair st) = links st"
    with assms show ?thesis by (simp add: noDangling_ids)
  next
    assume "\<exists>p q. filter selected (atoms st) = [p, q]
      \<and> links (linkPair st)
          = links st @ [\<lparr>aId = min (id_atom p) (id_atom q), bId = max (id_atom p) (id_atom q)\<rparr>]
      \<and> \<not> list_ex (\<lambda>L. aId L = min (id_atom p) (id_atom q) \<and> bId L = max (id_atom p) (id_atom q))
            (links st)"
    then obtain p q where pq: "filter selected (atoms st) = [p, q]"
      and l: "links (linkPair st)
          = links st @ [\<lparr>aId = min (id_atom p) (id_atom q), bId = max (id_atom p) (id_atom q)\<rparr>]"
      by blast
    from selected_mem [OF pq] have "id_atom p \<in> set (idsOf st)" "id_atom q \<in> set (idsOf st)"
      by (simp_all add: idsOf_def)
    then have "min (id_atom p) (id_atom q) \<in> set (idsOf st)" "max (id_atom p) (id_atom q) \<in> set (idsOf st)"
      by (simp_all add: min_def max_def)
    with assms l show ?thesis by (simp add: noDangling_ids)
  qed
qed

lemma noDangling_onClick: "noDangling st \<Longrightarrow> noDangling (onClick i env st)"
  by (auto simp: onClick_def noDangling_removeSelected noDangling_clearAll noDangling_linkPair
      intro: noDangling_same)

lemma noDangling_handleEvent: "noDangling st \<Longrightarrow> noDangling (handleEvent env ev st)"
proof (cases ev)
  case Closed
  assume "noDangling st"
  then show ?thesis using Closed by (simp add: noDangling_def)
next
  case (MouseMoved mx my)
  assume "noDangling st"
  then show ?thesis using MouseMoved by (auto intro: noDangling_same)
next
  case (MouseButtonPressed b mx my)
  assume "noDangling st"
  then show ?thesis using MouseButtonPressed
    by (cases b) (auto simp: onLeftPressed_def Let_def noDangling_onClick split: option.splits
        intro: noDangling_same)
next
  case (MouseButtonReleased b mx my)
  assume "noDangling st"
  then show ?thesis using MouseButtonReleased
    by (cases b) (auto intro: noDangling_same)
next
  case OtherEvent
  assume "noDangling st"
  then show ?thesis using OtherEvent by simp
qed

lemma noDangling_timeUpdate: "noDangling st \<Longrightarrow> noDangling (timeUpdate t st)"
  by (auto intro: noDangling_same)

lemma noDangling_pollEvents: "noDangling st \<Longrightarrow> noDangling (pollEvents evs st)"
  by (induction evs arbitrary: st) (auto simp: noDangling_handleEvent)

lemma noDangling_frame: "noDangling st \<Longrightarrow> noDangling (frame evs t st)"
  by (simp add: frame_def noDangling_timeUpdate noDangling_pollEvents)

lemma noDangling_reachable: "reachable st \<Longrightarrow> noDangling st"
  by (induction rule: reachable.induct) (simp_all add: noDangling_frame, simp add: noDangling_def initState_def)

subsection \<open>Reachable states are well formed\<close>

lemma distinct_links_linkPair: "distinct (links st) \<Longrightarrow> distinct (links (linkPair st))"
  using linkPair_links [of st]
  by (fastforce simp: list_ex_iff)

lemma distinct_links_removeSelected: "distinct (links st) \<Longrightarrow> distinct (links (removeSelected st))"
  by (simp add: links_removeSelected)

lemma smod_range: "0 \<le> k \<Longrightarrow> 0 \<le> k smod 10 \<and> k smod 10 < (10::int)"
  by (simp add: signed_modulo_int_def sgn_if)

lemma wellFormed_same:
  "wellFormed st \<Longrightarrow> links st' = links st \<Longrightarrow> idsOf st' = idsOf st \<Longrightarrow> nextId st' = nextId st
     \<Longrightarrow> selectedElement st' = selectedElement st \<Longrightarrow> wellFormed st'"
  by (simp add: wellFormed_def noDangling_ids)

lemma wellFormed_cycle:
  assumes wf: "wellFormed st"
  shows "wellFormed (prevElement st)" and "wellFormed (nextElement st)"
proof -
  have len: "int (length ELEMENTS) = 10" by (simp add: ELEMENTS_def)
  have "noDangling (prevElement st)" "noDangling (nextElement st)"
    using wf by (auto simp: wellFormed_def intro: noDangling_same)
  moreover have "0 \<le> selectedElement (prevElement st) \<and> selectedElement (prevElement st) < 10"
    using wf smod_range [of "selectedElement st - 1 + 10"]
    by (simp add: prevElement_def wellFormed_def len)
  moreover have "0 \<le> selectedElement (nextElement st) \<and> selectedElement (nextElement st) < 10"
    using wf smod_range [of "selectedElement st + 1"]
    by (simp add: nextElement_def wellFormed_def len)
  ultimately show "wellFormed (prevElement st)" and "wellFormed (nextElement st)"
    using wf by (simp_all add: wellFormed_def len)
qed

lemma wellFormed_addAtom: "wellFormed st \<Longrightarrow> wellFormed (addAtom env st)"
proof -
  assume wf: "wellFormed st"
  have "noDangling (addAtom env st)" using wf by (auto simp: wellFormed_def intro: noDangling_same)
  moreover have "nextId (addAtom env st) = nextId st + 1" by (simp add: addAtom_def Let_def)
  ultimately show ?thesis using wf
    by (auto simp: wellFormed_def list_all_iff)
qed

lemma wellFormed_linkPair: "wellFormed st \<Longrightarrow> wellFormed (linkPair st)"
  by (simp add: wellFormed_def noDangling_linkPair distinct_links_linkPair)

lemma wellFormed_removeSelected: "wellFormed st \<Longrightarrow> wellFormed (removeSelected st)"
  by (simp add: wellFormed_def noDangling_removeSelected distinct_links_removeSelected list_all_iff)

lemma wellFormed_clearAll: "wellFormed st \<Longrightarrow> wellFormed (clearAll st)"
proof -
  assume wf: "wellFormed st"
  have "links (clearAll st) = []" by (simp add: clearAll_def)
  with wf show ?thesis by (simp add: wellFormed_def noDangling_clearAll)
qed

lemma wellFormed_onClick: "wellFormed st \<Longrightarrow> wellFormed (onClick i env st)"
  by (auto simp: onClick_def wellFormed_cycle wellFormed_addAtom wellFormed_linkPair
      wellFormed_removeSelected wellFormed_clearAll intro: wellFormed_same)

lemma wellFormed_handleEvent: "wellFormed st \<Longrightarrow> wellFormed (handleEvent env ev st)"
proof (cases ev)
  case Closed
  assume "wellFormed st"
  then show ?thesis using Closed by (auto intro: wellFormed_same simp: idsOf_def)
next
  case (MouseMoved mx my)
  assume "wellFormed st"
  then show ?thesis using MouseMoved by (auto intro: wellFormed_same)
next
  case (MouseButtonPressed b mx my)
  assume "wellFormed st"
  then show ?thesis using MouseButtonPressed
    by (cases b) (auto simp: onLeftPressed_def Let_def wellFormed_onClick split: option.splits
        intro: wellFormed_same)
next
  case (MouseButtonReleased b mx my)
  assume "wellFormed st"
  then show ?thesis using MouseButtonReleased
    by (cases b) (auto intro: wellFormed_same)
next
  case OtherEvent
  assume "wellFormed st"
  then show ?thesis using OtherEvent by simp
qed

lemma wellFormed_timeUpdate: "wellFormed st \<Longrightarrow> wellFormed (timeUpdate t st)"
  by (auto intro: wellFormed_same)

lemma wellFormed_pollEvents: "wellFormed st \<Longrightarrow> wellFormed (pollEvents evs st)"
  by (induction evs arbitrary: st) (auto simp: wellFormed_handleEvent)

lemma wellFormed_frame: "wellFormed st \<Longrightarrow> wellFormed (frame evs t st)"
  by (simp add: frame_def wellFormed_timeUpdate wellFormed_pollEvents)

lemma wellFormed_init: "wellFormed initState"
  by (simp add: wellFormed_def noDangling_def idsOf_def initState_def ELEMENTS_def)

lemma wellFormed_reachable: "reachable st \<Longrightarrow> wellFormed st"
  by (induction rule: reachable.induct) (simp_all add: wellFormed_init wellFormed_frame)

lemma reachable_distinct_links: "reachable st \<Longrightarrow> distinct (links st)"
  using wellFormed_reachable [of st] by (simp add: wellFormed_def)

lemma reachable_distinct_ids: "reachable st \<Longrightarrow> distinct (idsOf st)"
  using wellFormed_reachable [of st] by (simp add: wellFormed_def)

lemma reachable_ids_positive: "reachable st \<Longrightarrow> list_all (\<lambda>a. id_atom a \<noteq> - 1) (atoms st)"
  using wellFormed_reachable [of st] by (auto simp: wellFormed_def idsOf_def list_all_iff)

subsection \<open>Removing the selected atoms\<close>

lemma atoms_removeSelected:
  "atoms (removeSelected st)
     = filter (\<lambda>a. id_atom a \<notin> set (map id_atom (filter selected (atoms st)))) (atoms st)"
  by (simp add: removeSelected_def Let_def)

lemma removeSelected_none_selected: "list_all (\<lambda>a. \<not> selected a) (atoms (removeSelected st))"
  by (auto simp: atoms_removeSelected list_all_iff)

lemma removeSelected_distinct:
  assumes "distinct (idsOf st)"
  shows "atoms (removeSelected st) = filter (\<lambda>a. \<not> selected a) (atoms st)"
proof -
  have inj: "inj_on id_atom (set (atoms st))"
    using assms by (simp add: idsOf_def distinct_map)
  have "(id_atom a \<notin> set (map id_atom (filter selected (atoms st)))) = (\<not> selected a)"
    if "a \<in> set (atoms st)" for a
    using that inj by (auto dest: inj_onD)
  then show ?thesis
    unfolding atoms_removeSelected by (intro filter_cong) simp_all
qed

lemma links_removeSelected':
  "links (removeSelected st)
     = filter (\<lambda>L. aId L \<notin> set (map id_atom (filter selected (atoms st)))
                  \<and> bId L \<notin> set (map id_atom (filter selected (atoms st)))) (links st)"
  by (simp add: removeSelected_def Let_def)

text \<open>
  C5: \<open>removeSelected\<close> keeps exactly the atoms whose identifier is not that of a selected
  atom, so no selected atom remains (and, identifiers being distinct, exactly the
  unselected atoms remain), and in the same operation keeps exactly the links neither of
  whose endpoints is the identifier of a selected atom: a link with an endpoint at a
  removed atom is removed. That every link's endpoints are identifiers of live atoms is
  preserved by \<open>removeSelected\<close>, by every button command, by every event handler, by the
  per-frame update and by a whole frame; it holds initially and in every reachable state.
\<close>

theorem removeSelected_prunes_links:
  "atoms (removeSelected st)
     = filter (\<lambda>a. id_atom a \<notin> set (map id_atom (filter selected (atoms st)))) (atoms st)
   \<and> list_all (\<lambda>a. \<not> selected a) (atoms (removeSelected st))
   \<and> (distinct (idsOf st) \<longrightarrow> atoms (removeSelected st) = filter (\<lambda>a. \<not> selected a) (atoms st))
   \<and> links (removeSelected st)
       = filter (\<lambda>L. aId L \<notin> set (map id_atom (filter selected (atoms st)))
                    \<and> bId L \<notin> set (map id_atom (filter selected (atoms st)))) (links st)
   \<and> (a \<in> set (atoms st) \<and> selected a \<and> (aId L = id_atom a \<or> bId L = id_atom a)
        \<longrightarrow> L \<notin> set (links (removeSelected st)))
   \<and> (noDangling st \<longrightarrow>
         noDangling (removeSelected st) \<and> noDangling (onClick i env st)
         \<and> noDangling (handleEvent env ev st) \<and> noDangling (timeUpdate t st)
         \<and> noDangling (frame evs t st))
   \<and> noDangling initState
   \<and> (reachable st \<longrightarrow> noDangling st)"
proof -
  have "L \<notin> set (links (removeSelected st))"
    if "a \<in> set (atoms st) \<and> selected a \<and> (aId L = id_atom a \<or> bId L = id_atom a)"
    using that by (auto simp: links_removeSelected')
  moreover have "noDangling initState"
    by (simp add: noDangling_def initState_def)
  ultimately show ?thesis
    using atoms_removeSelected [of st] removeSelected_none_selected [of st]
      removeSelected_distinct [of st] links_removeSelected' [of st]
    by (simp add: noDangling_removeSelected noDangling_onClick noDangling_handleEvent
        noDangling_timeUpdate noDangling_frame noDangling_reachable)
qed

theorem removeSelected_prunes_links_witness:
  "noDangling stateLinked \<and> map id_atom (atoms (removeSelected stateLinked)) = [2]
   \<and> links (removeSelected stateLinked) = []
   \<and> noDangling (removeSelected stateLinked)
   \<and> noDangling (handleEvent demoEnv (MouseButtonPressed Left 100 240) stateLinked)
   \<and> noDangling (frame [(demoEnv, MouseButtonPressed Left 100 80)] 5 initState)"
proof -
  have n: "noDangling stateLinked"
    by (simp add: noDangling_def stateLinked_def atomA_def atomB_def)
  have r: "reachable (frame [(demoEnv, MouseButtonPressed Left 100 80)] 5 initState)"
    by (intro reachable_frame reachable_init) (simp add: initState_def)
  from n r removeSelected_prunes_links [of stateLinked atomA "\<lparr>aId = 1, bId = 2\<rparr>" 6 demoEnv
        "MouseButtonPressed Left 100 240" 0 "[]"]
      removeSelected_prunes_links
        [of "frame [(demoEnv, MouseButtonPressed Left 100 80)] 5 initState" atomA "\<lparr>aId = 1, bId = 2\<rparr>" 6 demoEnv
        "MouseButtonPressed Left 100 240" 0 "[]"]
  show ?thesis
    by (simp add: stateLinked_def atomA_def atomB_def idsOf_def)
qed

section \<open>Linking a pair\<close>

lemma atoms_linkPair [simp]: "atoms (linkPair st) = atoms st"
  by (simp add: linkPair_def Let_def)

lemma linkPair_two:
  assumes "filter selected (atoms st) = [p, q]"
  shows "links (linkPair st)
        = (if list_ex (\<lambda>L. aId L = min (id_atom p) (id_atom q) \<and> bId L = max (id_atom p) (id_atom q))
                (links st)
           then links st
           else links st @ [\<lparr>aId = min (id_atom p) (id_atom q), bId = max (id_atom p) (id_atom q)\<rparr>])"
  using assms by (auto simp: linkPair_def Let_def min_def max_def)

lemma linkPair_not_two: "length (filter selected (atoms st)) \<noteq> 2 \<Longrightarrow> linkPair st = st"
  by (simp add: linkPair_def)

lemma linkPair_exists_after:
  assumes "filter selected (atoms st) = [p, q]"
  shows "list_ex (\<lambda>L. aId L = min (id_atom p) (id_atom q) \<and> bId L = max (id_atom p) (id_atom q))
           (links (linkPair st))"
  by (simp add: linkPair_two [OF assms])

lemma linkPair_state:
  assumes "filter selected (atoms st) = [p, q]"
  shows "linkPair st
        = (if list_ex (\<lambda>L. aId L = min (id_atom p) (id_atom q) \<and> bId L = max (id_atom p) (id_atom q))
                (links st)
           then st
           else st\<lparr>links := links st
                  @ [\<lparr>aId = min (id_atom p) (id_atom q), bId = max (id_atom p) (id_atom q)\<rparr>]\<rparr>)"
  using assms by (auto simp: linkPair_def Let_def min_def max_def)

lemma linkPair_idem: "linkPair (linkPair st) = linkPair st"
proof (cases "length (filter selected (atoms st)) = 2")
  case False
  then show ?thesis by (simp add: linkPair_not_two)
next
  case True
  then obtain p q where pq: "filter selected (atoms st) = [p, q]"
    by (auto simp: length_Suc_conv numeral_2_eq_2)
  then have pq': "filter selected (atoms (linkPair st)) = [p, q]" by simp
  show ?thesis
    by (subst linkPair_state [OF pq']) (simp only: linkPair_exists_after [OF pq] if_True)
qed

lemma distinct_filter_le_1:
  "distinct xs \<Longrightarrow> (\<And>x y. P x \<Longrightarrow> P y \<Longrightarrow> x = y) \<Longrightarrow> length (filter P xs) \<le> 1"
proof (induction xs)
  case Nil
  then show ?case by simp
next
  case (Cons a xs)
  show ?case
  proof (cases "P a")
    case True
    have "filter P xs = []"
    proof (rule ccontr)
      assume "filter P xs \<noteq> []"
      then obtain b where "b \<in> set xs" "P b"
        by (metis filter_False)
      with True Cons.prems(2) have "a = b" by blast
      with \<open>b \<in> set xs\<close> Cons.prems(1) show False by simp
    qed
    with True show ?thesis by simp
  next
    case False
    with Cons show ?thesis by simp
  qed
qed

lemma list_ex_filter_pos: "list_ex P xs \<Longrightarrow> 1 \<le> length (filter P xs)"
  by (induction xs) auto

text \<open>
  C4: when exactly two atoms \<open>p\<close> and \<open>q\<close> are selected, \<open>linkPair\<close> appends the link with
  the smaller identifier first and the larger second, unless a link with that pair
  already exists, in which case the links are unchanged; \<open>linkPair\<close> is idempotent, and
  when no link occurs twice (as in every reachable state) two calls leave exactly one link
  for the pair. When the number of selected atoms is not 2 the links are unchanged, and
  \<open>linkPair\<close> never changes the atoms.
\<close>

theorem linkPair_canonical_dedup:
  "(filter selected (atoms st) = [p, q] \<longrightarrow>
      links (linkPair st)
        = (if list_ex (\<lambda>L. aId L = min (id_atom p) (id_atom q) \<and> bId L = max (id_atom p) (id_atom q))
                (links st)
           then links st
           else links st @ [\<lparr>aId = min (id_atom p) (id_atom q), bId = max (id_atom p) (id_atom q)\<rparr>])
      \<and> (distinct (links st) \<longrightarrow>
           length (filter (\<lambda>L. aId L = min (id_atom p) (id_atom q) \<and> bId L = max (id_atom p) (id_atom q))
                     (links (linkPair (linkPair st)))) = 1))
   \<and> linkPair (linkPair st) = linkPair st
   \<and> (length (filter selected (atoms st)) \<noteq> 2 \<longrightarrow> links (linkPair st) = links st)
   \<and> atoms (linkPair st) = atoms st
   \<and> (reachable st \<longrightarrow> distinct (links st))"
proof -
  have one: "length (filter (\<lambda>L. aId L = min (id_atom p) (id_atom q) \<and> bId L = max (id_atom p) (id_atom q))
                     (links (linkPair (linkPair st)))) = 1"
    if pq: "filter selected (atoms st) = [p, q]" and d: "distinct (links st)"
  proof -
    let ?P = "\<lambda>L. aId L = min (id_atom p) (id_atom q) \<and> bId L = max (id_atom p) (id_atom q)"
    have "distinct (links (linkPair st))" using d by (rule distinct_links_linkPair)
    then have "length (filter ?P (links (linkPair st))) \<le> 1"
      by (rule distinct_filter_le_1) simp
    moreover have "1 \<le> length (filter ?P (links (linkPair st)))"
      using linkPair_exists_after [OF pq] by (rule list_ex_filter_pos)
    ultimately show ?thesis by (simp add: linkPair_idem)
  qed
  show ?thesis
    using one by (simp add: linkPair_two linkPair_idem linkPair_not_two reachable_distinct_links)
qed

theorem linkPair_canonical_dedup_witness:
  "links (linkPair stateBA) = [\<lparr>aId = 1, bId = 2\<rparr>]
   \<and> links (linkPair (linkPair stateBA)) = [\<lparr>aId = 1, bId = 2\<rparr>]
   \<and> links (linkPair stateLinked) = [\<lparr>aId = 1, bId = 2\<rparr>]
   \<and> links (linkPair initState) = []"
  using linkPair_canonical_dedup [of stateBA atomB atomA]
    linkPair_canonical_dedup [of stateLinked atomA atomA]
    linkPair_canonical_dedup [of initState atomA atomA]
  by (simp add: stateBA_def stateLinked_def initState_def atomA_def atomB_def)

section \<open>Commands without a selection\<close>

text \<open>
  C6: when no atom is selected, each of \<open>toggleActiveSelected\<close>, \<open>scheduleSelected\<close>,
  \<open>linkPair\<close> and \<open>removeSelected\<close> returns the state it was given, unchanged in every
  component; the commands are total functions with no error result. \<open>linkPair\<close> also
  returns the state unchanged whenever the number of selected atoms is not 2.
\<close>

theorem commands_noop_without_selection:
  "(list_all (\<lambda>a. \<not> selected a) (atoms st) \<longrightarrow>
      toggleActiveSelected st = st \<and> scheduleSelected env st = st \<and> linkPair st = st
      \<and> removeSelected st = st)
   \<and> (length (filter selected (atoms st)) \<noteq> 2 \<longrightarrow> linkPair st = st)"
proof -
  have "toggleActiveSelected st = st \<and> scheduleSelected env st = st \<and> linkPair st = st
      \<and> removeSelected st = st" if n: "list_all (\<lambda>a. \<not> selected a) (atoms st)"
  proof -
    have f: "filter selected (atoms st) = []" using n by (simp add: list_all_iff)
    have "map (\<lambda>a. if selected a then g a else a) (atoms st) = atoms st" for g
      using n by (intro map_idI) (simp add: list_all_iff)
    then show ?thesis
      by (simp add: toggleActiveSelected_def scheduleSelected_def linkPair_def removeSelected_def f)
  qed
  then show ?thesis by (simp add: linkPair_not_two)
qed

theorem commands_noop_without_selection_witness:
  "toggleActiveSelected stateIdle = stateIdle \<and> scheduleSelected demoEnv stateIdle = stateIdle
   \<and> linkPair stateIdle = stateIdle \<and> removeSelected stateIdle = stateIdle
   \<and> linkPair stateLinked = stateLinked"
  using commands_noop_without_selection [of stateIdle demoEnv]
    commands_noop_without_selection [of stateLinked demoEnv]
  by (simp add: stateIdle_def stateLinked_def atomA_def atomB_def)

section \<open>Active and scheduled at once\<close>

text \<open>
  A run of four frames from the initial state, \<open>demoRun\<close>: the user adds a Hydrogen atom,
  clicks it on the canvas, presses ``Schedule +2s'' at clock reading 5 and, in the fourth
  frame, ``Toggle Active''; the first three frames end with the update at time 5, the
  fourth with the update at time 6.
\<close>

lemma upt_8: "[0..<8] = [0, 1, 2, 3, 4, 5, 6, 7]"
  by (simp add: upt_rec numeral_eq_Suc)

lemma over_add: "find (overButton demoEnv (100, 80)) [0..<8] = Some 2"
  by (simp add: upt_8 demoEnv_def buttonBox_def float_ops)

lemma over_sched: "find (overButton demoEnv (100, 160)) [0..<8] = Some 4"
  by (simp add: upt_8 demoEnv_def buttonBox_def float_ops)

lemma over_toggle: "find (overButton demoEnv (100, 120)) [0..<8] = Some 3"
  by (simp add: upt_8 demoEnv_def buttonBox_def float_ops)

lemma over_canvas: "find (overButton demoEnv (420, 100)) [0..<8] = None"
  by (simp add: upt_8 demoEnv_def buttonBox_def float_ops)

lemma run1: "handleEvent demoEnv (MouseButtonPressed Left 100 80) initState
   = initState\<lparr>atoms := [demoAtom False False None], nextId := 2\<rparr>"
  by (simp add: initState_def onLeftPressed_def float_of_int_def over_add onClick_def addAtom_def
    ELEMENTS_def SIDEBAR_W_def demoAtom_def)
   (simp add: demoEnv_def float_ops)

lemma run3: "handleEvent demoEnv (MouseButtonPressed Left 420 100)
     (initState\<lparr>atoms := [demoAtom False False None], nextId := 2\<rparr>)
   = initState\<lparr>atoms := [demoAtom False True None], nextId := 2, dragging := True,
       draggingId := 1, dragOffset := (0, 0)\<rparr>"
  by (simp add: initState_def onLeftPressed_def float_of_int_def over_canvas canvasClick_def
      SIDEBAR_W_def pickAtom_def isHit_def length_v_def vsub_def demoAtom_def float_ops Let_def)

lemma run4: "handleEvent demoEnv (MouseButtonReleased Left mx my)
     (initState\<lparr>atoms := [demoAtom False True None], nextId := 2, dragging := True,
       draggingId := 1, dragOffset := (0, 0)\<rparr>)
   = initState\<lparr>atoms := [demoAtom False True None], nextId := 2\<rparr>"
  by (simp add: initState_def onLeftReleased_def)

lemma run5: "handleEvent demoEnv (MouseButtonPressed Left 100 160)
     (initState\<lparr>atoms := [demoAtom False True None], nextId := 2\<rparr>)
   = initState\<lparr>atoms := [demoAtom False True (Some 7)], nextId := 2\<rparr>"
  by (simp add: initState_def onLeftPressed_def float_of_int_def over_sched onClick_def
      scheduleSelected_def demoAtom_def)
     (simp add: demoEnv_def float_ops)

lemma run7: "handleEvent demoEnv (MouseButtonPressed Left 100 120)
     (initState\<lparr>atoms := [demoAtom False True (Some 7)], nextId := 2\<rparr>)
   = initState\<lparr>atoms := [demoAtom True True (Some 7)], nextId := 2\<rparr>"
  by (simp add: initState_def onLeftPressed_def float_of_int_def over_toggle onClick_def
      toggleActiveSelected_def demoAtom_def)

lemma run_rel: "handleEvent demoEnv (MouseButtonReleased Left mx my) (initState\<lparr>atoms := as, nextId := n\<rparr>)
   = initState\<lparr>atoms := as, nextId := n\<rparr>"
  by (simp add: initState_def onLeftReleased_def)

lemma open_demo:
  "isOpen initState"
  "isOpen (initState\<lparr>atoms := as, nextId := n\<rparr>)"
  "isOpen (initState\<lparr>atoms := as, nextId := n, dragging := d, draggingId := i, dragOffset := off\<rparr>)"
  by (simp_all add: initState_def)

lemma update_idle:
  "timeUpdate 5 (initState\<lparr>atoms := [demoAtom False sel None], nextId := n\<rparr>)
     = initState\<lparr>atoms := [demoAtom False sel None], nextId := n\<rparr>"
  "timeUpdate 5 (initState\<lparr>atoms := [demoAtom False sel (Some 7)], nextId := n\<rparr>)
     = initState\<lparr>atoms := [demoAtom False sel (Some 7)], nextId := n\<rparr>"
  by (simp_all add: timeUpdate_def updateAtom_def demoAtom_def initState_def)

lemma frame1:
  "frame [(demoEnv, MouseButtonPressed Left 100 80), (demoEnv, MouseButtonReleased Left 100 80)] 5 initState
     = initState\<lparr>atoms := [demoAtom False False None], nextId := 2\<rparr>"
  by (simp only: frame_def pollEvents.simps open_demo run1 run_rel update_idle if_True)

lemma frame2:
  "frame [(demoEnv, MouseButtonPressed Left 420 100), (demoEnv, MouseButtonReleased Left 420 100)] 5
       (initState\<lparr>atoms := [demoAtom False False None], nextId := 2\<rparr>)
     = initState\<lparr>atoms := [demoAtom False True None], nextId := 2\<rparr>"
  by (simp only: frame_def pollEvents.simps open_demo run3 run4 update_idle if_True)

lemma frame3:
  "frame [(demoEnv, MouseButtonPressed Left 100 160), (demoEnv, MouseButtonReleased Left 100 160)] 5
       (initState\<lparr>atoms := [demoAtom False True None], nextId := 2\<rparr>)
     = initState\<lparr>atoms := [demoAtom False True (Some 7)], nextId := 2\<rparr>"
  by (simp only: frame_def pollEvents.simps open_demo run5 run_rel update_idle if_True)

lemma frame4:
  "atoms (frame [(demoEnv, MouseButtonPressed Left 100 120), (demoEnv, MouseButtonReleased Left 100 120)] 6
       (initState\<lparr>atoms := [demoAtom False True (Some 7)], nextId := 2\<rparr>))
     = [(demoAtom True True (Some 7))
          \<lparr>electrons := map (\<lambda>e. e\<lparr>angle := fadd (angle e) (fmul (speed e) (fdiv 1 60))\<rparr>)
                          (makeElectronsForElement (\<lambda>k. 0) 1)\<rparr>]"
proof -
  have "pollEvents [(demoEnv, MouseButtonPressed Left 100 120), (demoEnv, MouseButtonReleased Left 100 120)]
          (initState\<lparr>atoms := [demoAtom False True (Some 7)], nextId := 2\<rparr>)
        = initState\<lparr>atoms := [demoAtom True True (Some 7)], nextId := 2\<rparr>"
    by (simp only: pollEvents.simps open_demo run7 run_rel if_True)
  then show ?thesis
    by (simp add: frame_def timeUpdate_def updateAtom_def demoAtom_def)
qed

lemma demoRun_atoms:
  "atoms demoRun
     = [(demoAtom True True (Some 7))
          \<lparr>electrons := map (\<lambda>e. e\<lparr>angle := fadd (angle e) (fmul (speed e) (fdiv 1 60))\<rparr>)
                          (makeElectronsForElement (\<lambda>k. 0) 1)\<rparr>]"
  unfolding demoRun_def by (simp only: frame1 frame2 frame3 frame4)

lemma demoRun_reachable: "reachable demoRun"
proof -
  have 1: "reachable (initState\<lparr>atoms := [demoAtom False False None], nextId := 2\<rparr>)"
    using reachable_frame [OF reachable_init open_demo(1)] frame1 by metis
  have 2: "reachable (initState\<lparr>atoms := [demoAtom False True None], nextId := 2\<rparr>)"
    using reachable_frame [OF 1 open_demo(2)] frame2 by metis
  have 3: "reachable (initState\<lparr>atoms := [demoAtom False True (Some 7)], nextId := 2\<rparr>)"
    using reachable_frame [OF 2 open_demo(2)] frame3 by metis
  show ?thesis
    unfolding demoRun_def
    by (simp only: frame1 frame2 frame3) (rule reachable_frame [OF 3 open_demo(2)])
qed

text \<open>
  C1, as stated, fails: the state after the four frames is reachable and its atom is
  active while its \<open>scheduledStart\<close> is still present.
\<close>

theorem exclusive_counterexample:
  "reachable demoRun \<and> \<not> list_all exclusive (atoms demoRun)"
  by (simp add: demoRun_reachable demoRun_atoms exclusive_def demoAtom_def)

text \<open>
  C1, amended: the per-frame update preserves, for every atom, that it is not both active
  and carrying a \<open>scheduledStart\<close> (a schedule that fires is cleared in the update that sets
  \<open>active\<close>). \<open>toggleActiveSelected\<close> preserves it for an atom that is unselected or has no
  \<open>scheduledStart\<close>, and \<open>scheduleSelected\<close> for an atom that is unselected or inactive; a
  selected inactive atom with a pending schedule becomes active and scheduled at once
  when toggled, and so does a selected active atom when scheduled.
\<close>

theorem exclusive_preserved_except_selected:
  assumes "i < length (atoms st)"
  shows "(exclusive (atoms st ! i) \<longrightarrow> exclusive (atoms (timeUpdate t st) ! i))
    \<and> (exclusive (atoms st ! i) \<and> (selected (atoms st ! i) \<longrightarrow> scheduledStart (atoms st ! i) = None)
         \<longrightarrow> exclusive (atoms (toggleActiveSelected st) ! i))
    \<and> (exclusive (atoms st ! i) \<and> (selected (atoms st ! i) \<longrightarrow> \<not> active (atoms st ! i))
         \<longrightarrow> exclusive (atoms (scheduleSelected env st) ! i))
    \<and> (selected (atoms st ! i) \<and> \<not> active (atoms st ! i) \<and> scheduledStart (atoms st ! i) \<noteq> None
         \<longrightarrow> \<not> exclusive (atoms (toggleActiveSelected st) ! i))
    \<and> (selected (atoms st ! i) \<and> active (atoms st ! i)
         \<longrightarrow> \<not> exclusive (atoms (scheduleSelected env st) ! i))"
proof -
  have "exclusive (atoms st ! i) \<longrightarrow> exclusive (atoms (timeUpdate t st) ! i)"
    using assms by (simp add: timeUpdate_nth updateAtom_exclusive)
  moreover have "exclusive (atoms st ! i)
        \<and> (selected (atoms st ! i) \<longrightarrow> scheduledStart (atoms st ! i) = None)
      \<longrightarrow> exclusive (atoms (toggleActiveSelected st) ! i)"
    using assms by (simp add: toggleActiveSelected_nth exclusive_def)
  moreover have "exclusive (atoms st ! i) \<and> (selected (atoms st ! i) \<longrightarrow> \<not> active (atoms st ! i))
      \<longrightarrow> exclusive (atoms (scheduleSelected env st) ! i)"
    using assms by (simp add: scheduleSelected_nth exclusive_def)
  moreover have "selected (atoms st ! i) \<and> \<not> active (atoms st ! i)
        \<and> scheduledStart (atoms st ! i) \<noteq> None
      \<longrightarrow> \<not> exclusive (atoms (toggleActiveSelected st) ! i)"
    using assms by (simp add: toggleActiveSelected_nth exclusive_def)
  moreover have "selected (atoms st ! i) \<and> active (atoms st ! i)
      \<longrightarrow> \<not> exclusive (atoms (scheduleSelected env st) ! i)"
    using assms by (simp add: scheduleSelected_nth exclusive_def)
  ultimately show ?thesis by (intro conjI)
qed

theorem exclusive_preserved_except_selected_witness:
  "exclusive (atoms stateAB ! 0) \<and> exclusive (atoms (timeUpdate 9 stateAB) ! 0)
   \<and> exclusive (atoms (toggleActiveSelected stateAB) ! 0)
   \<and> exclusive (atoms (scheduleSelected demoEnv stateAB) ! 0)
   \<and> exclusive (atoms stateAB ! 1) \<and> \<not> exclusive (atoms (scheduleSelected demoEnv stateAB) ! 1)
   \<and> \<not> exclusive (atoms (toggleActiveSelected (scheduleSelected demoEnv stateAB)) ! 0)"
  using exclusive_preserved_except_selected [of 0 stateAB 9 demoEnv]
    exclusive_preserved_except_selected [of 1 stateAB 9 demoEnv]
    exclusive_preserved_except_selected [of 0 "scheduleSelected demoEnv stateAB" 9 demoEnv]
  by (simp add: stateAB_def atomA_def atomB_def exclusive_def scheduleSelected_def
      toggleActiveSelected_def timeUpdate_def updateAtom_def Let_def)

section \<open>Pending and due schedules on the run\<close>

lemma demoScheduled_eq:
  "demoScheduled = initState\<lparr>atoms := [demoAtom False True (Some 7)], nextId := 2\<rparr>"
  unfolding demoScheduled_def by (simp only: frame1 frame2 frame3)

lemma demoScheduled_reachable: "reachable demoScheduled"
proof -
  have 1: "reachable (initState\<lparr>atoms := [demoAtom False False None], nextId := 2\<rparr>)"
    using reachable_frame [OF reachable_init open_demo(1)] frame1 by metis
  have 2: "reachable (initState\<lparr>atoms := [demoAtom False True None], nextId := 2\<rparr>)"
    using reachable_frame [OF 1 open_demo(2)] frame2 by metis
  show ?thesis
    unfolding demoScheduled_def
    by (simp only: frame1 frame2) (rule reachable_frame [OF 2 open_demo(2)])
qed

text \<open>
  C3, as stated, fails: the atom of the reachable state \<open>demoRun\<close> carries the schedule
  \<open>scheduledStart = 7\<close> and is active, and the per-frame update at time 6, strictly before
  \<open>scheduledStart\<close>, leaves it active, not inactive. The same holds for the active selected
  atom of \<open>stateAB\<close> once \<open>scheduleSelected\<close> has scheduled it at clock reading 5.
\<close>

theorem pending_schedule_active_counterexample:
  "reachable demoRun
   \<and> scheduledStart (atoms demoRun ! 0) = Some 7
   \<and> active (atoms (timeUpdate 6 demoRun) ! 0)
   \<and> scheduledStart (atoms (timeUpdate 6 demoRun) ! 0) = Some 7
   \<and> selected (atoms stateAB ! 1)
   \<and> scheduledStart (atoms (scheduleSelected demoEnv stateAB) ! 1) = Some 7
   \<and> active (atoms (timeUpdate 6 (scheduleSelected demoEnv stateAB)) ! 1)
   \<and> scheduledStart (atoms (timeUpdate 6 (scheduleSelected demoEnv stateAB)) ! 1) = Some 7"
  by (simp add: demoRun_reachable)
     (simp add: demoRun_atoms demoAtom_def timeUpdate_def updateAtom_def stateAB_def atomA_def
       atomB_def scheduleSelected_def demoEnv_def fadd_def)

text \<open>
  C8, as stated, fails: the atom of the reachable state \<open>demoScheduled\<close> is inactive and
  scheduled for time 7; the per-frame update at time 8 changes the angle of its electron
  from \<open>0\<close> to \<open>3131747/268435456\<close>, although the atom has \<open>active == false\<close> when the update
  begins. The new angle is the single-precision result and differs from
  \<open>angle + speed * (1/60)\<close>.
\<close>

theorem due_schedule_advances_counterexample:
  "reachable demoScheduled
   \<and> \<not> active (atoms demoScheduled ! 0)
   \<and> scheduledStart (atoms demoScheduled ! 0) = Some 7
   \<and> electrons (atoms demoScheduled ! 0)
       = [\<lparr>radius = 30, angle = 0, speed = 11744051 / 16777216\<rparr>]
   \<and> electrons (atoms (timeUpdate 8 demoScheduled) ! 0)
       = [\<lparr>radius = 30, angle = 3131747 / 268435456, speed = 11744051 / 16777216\<rparr>]
   \<and> angle (hd (electrons (atoms (timeUpdate 8 demoScheduled) ! 0)))
       \<noteq> angle (hd (electrons (atoms demoScheduled ! 0)))
           + speed (hd (electrons (atoms demoScheduled ! 0))) * (1 / 60)"
  by (simp add: demoScheduled_reachable)
     (simp add: demoScheduled_eq demoAtom_def hydrogen_electrons hydrogen_speed timeUpdate_def
       updateAtom_def step_value)

section \<open>Dragging\<close>

lemma clampf_cases:
  "lo \<le> hi \<Longrightarrow> clampf v lo hi = (if v < lo then lo else if hi < v then hi else v)"
  by (auto simp: clampf_def)

lemma clampf_range:
  "lo \<le> hi \<Longrightarrow> lo \<le> clampf v lo hi \<and> clampf v lo hi \<le> hi"
  by (auto simp: clampf_def)

lemma clampf_empty: "hi < lo \<Longrightarrow> clampf v lo hi = hi"
  by (auto simp: clampf_def)

lemma clampToCanvas_components:
  "clampToCanvas p w
     = (clampf (fst p) (fadd SIDEBAR_W 20) (fsub (float_of_nat (fst w)) 20),
        clampf (snd p) 20 (fsub (float_of_nat (snd w)) 20))"
  by (simp add: clampToCanvas_def Let_def)

text \<open>
  The rectangle \<open>[SIDEBAR_W + 20, width - 20] \<times> [20, height - 20]\<close> is not empty exactly
  when the window is at least 360 wide and 40 high.
\<close>

lemma canvas_left: "fadd SIDEBAR_W 20 = 340"
  by (simp add: SIDEBAR_W_def fadd_def)

lemma canvas_wide: "360 \<le> w \<Longrightarrow> fadd SIDEBAR_W 20 \<le> fsub (float_of_nat w) 20"
proof -
  assume "360 \<le> w"
  then have "rnd 360 \<le> rnd (real w)" by (intro rnd_mono) simp
  then have "340 \<le> rnd (real w) - 20" by simp
  then have "rnd 340 \<le> rnd (rnd (real w) - 20)" by (rule rnd_mono)
  then show ?thesis unfolding canvas_left by (simp add: fsub_def float_of_nat_def)
qed

lemma canvas_high: "40 \<le> h \<Longrightarrow> 20 \<le> fsub (float_of_nat h) 20"
proof -
  assume "40 \<le> h"
  then have "rnd 40 \<le> rnd (real h)" by (intro rnd_mono) simp
  then have "20 \<le> rnd (real h) - 20" by simp
  then have "rnd 20 \<le> rnd (rnd (real h) - 20)" by (rule rnd_mono)
  then show ?thesis by (simp add: float_ops)
qed

lemma canvas_narrow: "w < 360 \<Longrightarrow> fsub (float_of_nat w) 20 < fadd SIDEBAR_W 20"
proof -
  assume "w < 360"
  then have w: "rnd (real w) = real w" "real w \<le> 359"
    using rnd_of_int [of "int w"] by simp_all
  then have "rnd (real w - 20) \<le> rnd 339" by (intro rnd_mono) simp
  then show ?thesis unfolding canvas_left by (simp add: fsub_def float_of_nat_def w)
qed

lemma updateFirst_first:
  "i < length xs \<Longrightarrow> P (xs ! i) \<Longrightarrow> \<forall>j<i. \<not> P (xs ! j) \<Longrightarrow>
     updateFirst P f xs = xs[i := f (xs ! i)]"
proof (induction xs arbitrary: i)
  case Nil
  then show ?case by simp
next
  case (Cons a xs)
  show ?case
  proof (cases i)
    case 0
    with Cons.prems show ?thesis by simp
  next
    case (Suc k)
    with Cons.prems have na: "\<not> P a" by auto
    have "\<forall>j<k. \<not> P (xs ! j)"
    proof (intro allI impI)
      fix j assume "j < k"
      then have "Suc j < i" using Suc by simp
      with Cons.prems(3) have "\<not> P ((a # xs) ! Suc j)" by blast
      then show "\<not> P (xs ! j)" by simp
    qed
    with Cons.IH [of k] Cons.prems Suc na show ?thesis by simp
  qed
qed

text \<open>
  C7, as stated, fails: in a window resized to 350 by 600 the rectangle is empty, its
  upper bound \<open>width - 20 = 330\<close> lying below its lower bound \<open>SIDEBAR_W + 20 = 340\<close>, and
  a pointer move to \<open>(100, 325)\<close> with grab offset \<open>(5, 5)\<close> puts the dragged atom at
  \<open>(330, 320)\<close>, left of \<open>SIDEBAR_W + 20\<close>. The call of \<^verbatim>\<open>std::clamp\<close> is then outside what
  the C++ standard defines; \<open>330\<close> is what the library returns.
\<close>

theorem drag_small_window_counterexample:
  "dragging stateDrag \<and> draggingId stateDrag = 1 \<and> id_atom (atoms stateDrag ! 0) = 1
   \<and> winSize smallEnv = (350, 600)
   \<and> pos (atoms (handleEvent smallEnv (MouseMoved 100 325) stateDrag) ! 0) = (330, 320)
   \<and> fst (pos (atoms (handleEvent smallEnv (MouseMoved 100 325) stateDrag) ! 0))
       < fadd SIDEBAR_W 20
   \<and> fsub (float_of_nat (fst (winSize smallEnv))) 20 < fadd SIDEBAR_W 20"
  by (simp add: stateDrag_def stateAB_def atomA_def atomB_def onMouseMoved_def initState_def
      smallEnv_def demoEnv_def clampToCanvas_def clampf_def vsub_def float_ops SIDEBAR_W_def Let_def)

text \<open>
  C7, amended: let the window be at least 360 wide and 40 high, so that the rectangle
  \<open>[SIDEBAR_W + 20, width - 20] \<times> [20, height - 20]\<close> is not empty. On a pointer-move event
  while dragging (\<open>dragging\<close> set, \<open>draggingId\<close> not \<open>-1\<close>), the first atom whose identifier
  is \<open>draggingId\<close> gets the position \<open>clampToCanvas\<close> of the pointer minus \<open>dragOffset\<close> (the
  offset captured at the press, the difference in single precision), and nothing else
  changes in the atoms. \<open>clampToCanvas\<close> clamps the two coordinates separately: a
  coordinate below the lower bound becomes the lower bound, one above the upper bound
  becomes the upper bound, and one in between is kept, so the result lies in the
  rectangle. With pointer \<open>(450, 280)\<close> and offset \<open>(5, 5)\<close> the position becomes
  \<open>(445, 275)\<close> when that point is inside the rectangle.
\<close>

theorem drag_moves_atom_clamped:
  assumes "dragging st" and "draggingId st \<noteq> - 1"
    and "i < length (atoms st)" and "id_atom (atoms st ! i) = draggingId st"
    and "\<forall>j<i. id_atom (atoms st ! j) \<noteq> draggingId st"
    and "360 \<le> fst (winSize env)" and "40 \<le> snd (winSize env)"
  shows "atoms (handleEvent env (MouseMoved mx my) st)
      = (atoms st)[i := (atoms st ! i)
          \<lparr>pos := clampToCanvas (vsub (float_of_int mx, float_of_int my) (dragOffset st)) (winSize env)\<rparr>]
    \<and> clampToCanvas p (winSize env)
        = (if fst p < fadd SIDEBAR_W 20 then fadd SIDEBAR_W 20
           else if fsub (float_of_nat (fst (winSize env))) 20 < fst p
             then fsub (float_of_nat (fst (winSize env))) 20
           else fst p,
           if snd p < 20 then 20
           else if fsub (float_of_nat (snd (winSize env))) 20 < snd p
             then fsub (float_of_nat (snd (winSize env))) 20
           else snd p)
    \<and> fadd SIDEBAR_W 20 \<le> fst (clampToCanvas p (winSize env))
    \<and> fst (clampToCanvas p (winSize env)) \<le> fsub (float_of_nat (fst (winSize env))) 20
    \<and> 20 \<le> snd (clampToCanvas p (winSize env))
    \<and> snd (clampToCanvas p (winSize env)) \<le> fsub (float_of_nat (snd (winSize env))) 20
    \<and> (mx = 450 \<and> my = 280 \<and> dragOffset st = (5, 5)
         \<and> 445 \<le> fsub (float_of_nat (fst (winSize env))) 20
         \<and> 275 \<le> fsub (float_of_nat (snd (winSize env))) 20
        \<longrightarrow> pos (atoms (handleEvent env (MouseMoved mx my) st) ! i) = (445, 275))"
proof -
  let ?p = "clampToCanvas (vsub (float_of_int mx, float_of_int my) (dragOffset st)) (winSize env)"
  let ?hx = "fsub (float_of_nat (fst (winSize env))) 20"
  let ?hy = "fsub (float_of_nat (snd (winSize env))) 20"
  have a: "atoms (handleEvent env (MouseMoved mx my) st) = (atoms st)[i := (atoms st ! i)\<lparr>pos := ?p\<rparr>]"
    using assms(1-5) updateFirst_first [of i "atoms st" "\<lambda>a. id_atom a = draggingId st"]
    by (simp add: onMouseMoved_def Let_def)
  have x: "fadd SIDEBAR_W 20 \<le> ?hx" using assms(6) by (rule canvas_wide)
  have y: "20 \<le> ?hy" using assms(7) by (rule canvas_high)
  have c: "clampToCanvas q (winSize env)
        = (if fst q < fadd SIDEBAR_W 20 then fadd SIDEBAR_W 20
           else if ?hx < fst q then ?hx else fst q,
           if snd q < 20 then 20 else if ?hy < snd q then ?hy else snd q)" for q
    by (simp only: clampToCanvas_components clampf_cases [OF x] clampf_cases [OF y])
  have r: "fadd SIDEBAR_W 20 \<le> fst (clampToCanvas p (winSize env))"
    "fst (clampToCanvas p (winSize env)) \<le> ?hx"
    "20 \<le> snd (clampToCanvas p (winSize env))"
    "snd (clampToCanvas p (winSize env)) \<le> ?hy"
    using clampf_range [OF x, of "fst p"] clampf_range [OF y, of "snd p"]
    by (simp_all add: clampToCanvas_components)
  have e: "pos (atoms (handleEvent env (MouseMoved mx my) st) ! i) = (445, 275)"
    if "mx = 450 \<and> my = 280 \<and> dragOffset st = (5, 5) \<and> 445 \<le> ?hx \<and> 275 \<le> ?hy"
  proof -
    have "vsub (float_of_int mx, float_of_int my) (dragOffset st) = (445, 275)"
      using that by (simp add: vsub_def float_ops)
    then have "?p = (445, 275)"
      using that by (simp add: c canvas_left)
    with a assms(3) show ?thesis by simp
  qed
  from e have e': "mx = 450 \<and> my = 280 \<and> dragOffset st = (5, 5) \<and> 445 \<le> ?hx \<and> 275 \<le> ?hy
      \<longrightarrow> pos (atoms (handleEvent env (MouseMoved mx my) st) ! i) = (445, 275)"
    by (rule impI)
  show ?thesis by (intro conjI a c r e')
qed

theorem drag_moves_atom_clamped_witness:
  "atoms (handleEvent demoEnv (MouseMoved 450 280) stateDrag) = [atomA\<lparr>pos := (445, 275)\<rparr>, atomB]
   \<and> atoms (handleEvent demoEnv (MouseMoved 2000 (- 7)) stateDrag) = [atomA\<lparr>pos := (1180, 20)\<rparr>, atomB]
   \<and> atoms (handleEvent demoEnv (MouseMoved 100 900) stateDrag) = [atomA\<lparr>pos := (340, 780)\<rparr>, atomB]
   \<and> atoms (handleEvent (demoEnv\<lparr>winSize := (360, 40)\<rparr>) (MouseMoved 450 280) stateDrag)
       = [atomA\<lparr>pos := (340, 20)\<rparr>, atomB]"
proof -
  have h: "dragging stateDrag" "draggingId stateDrag \<noteq> - 1" "0 < length (atoms stateDrag)"
    "id_atom (atoms stateDrag ! 0) = draggingId stateDrag"
    "\<forall>j<0. id_atom (atoms stateDrag ! j) \<noteq> draggingId stateDrag"
    by (simp_all add: stateDrag_def stateAB_def atomA_def atomB_def)
  have g: "360 \<le> fst (winSize demoEnv)" "40 \<le> snd (winSize demoEnv)"
    by (simp_all add: demoEnv_def)
  have g': "360 \<le> fst (winSize (demoEnv\<lparr>winSize := (360, 40)\<rparr>))"
    "40 \<le> snd (winSize (demoEnv\<lparr>winSize := (360, 40)\<rparr>))"
    by simp_all
  have w: "fsub (float_of_nat (fst (winSize demoEnv))) 20 = 1180"
    "fsub (float_of_nat (snd (winSize demoEnv))) 20 = 780"
    by (simp_all add: demoEnv_def float_ops)
  have w': "fsub (float_of_nat 360) 20 = 340" "fsub (float_of_nat 40) 20 = 20"
    by (simp_all add: float_ops)
  have d: "dragOffset stateDrag = (5, 5)" "atoms stateDrag = [atomA, atomB]"
    by (simp_all add: stateDrag_def stateAB_def)
  have m: "vsub (float_of_int 2000, float_of_int (- 7)) (5, 5) = (1995, - 12)"
    "vsub (float_of_int 450, float_of_int 280) (5, 5) = (445, 275)"
    "vsub (float_of_int 100, float_of_int 900) (5, 5) = (95, 895)"
    by (simp_all add: vsub_def float_ops)
  from drag_moves_atom_clamped [OF h g, of 450 280 "(445, 275)"]
    drag_moves_atom_clamped [OF h g, of 2000 "- 7" "(1995, - 12)"]
    drag_moves_atom_clamped [OF h g, of 100 900 "(95, 895)"]
    drag_moves_atom_clamped [OF h g', of 450 280 "(445, 275)"]
  show ?thesis
    by (simp add: w w' d m canvas_left)
qed

section \<open>Pressing on an atom\<close>

lemma pickAtom_fold:
  "fold (\<lambda>a hitId. if isHit m a then id_atom a else hitId) as h
     = (if filter (isHit m) as = [] then h else id_atom (last (filter (isHit m) as)))"
  by (induction as arbitrary: h) simp_all

lemma pickAtom_last:
  "pickAtom m as = (if filter (isHit m) as = [] then - 1 else id_atom (last (filter (isHit m) as)))"
  by (simp add: pickAtom_def pickAtom_fold)

lemma find_map_id:
  "(\<And>a. id_atom (f a) = id_atom a) \<Longrightarrow>
     find (\<lambda>a. id_atom a = k) (map f as) = map_option f (find (\<lambda>a. id_atom a = k) as)"
  by (induction as) simp_all

lemma find_id_exists: "a \<in> set as \<Longrightarrow> \<exists>b. find (\<lambda>c. id_atom c = id_atom a) as = Some b"
  by (induction as) auto

text \<open>
  C10: a primary-button press that is over no button, lies in the canvas region and hits
  an atom (no identifier being the sentinel \<open>-1\<close>, as in every reachable state) starts the
  drag whether or not the control key is held: \<open>dragging\<close> is set, \<open>draggingId\<close> is the
  identifier of the last atom hit, and \<open>dragOffset\<close> is the pointer minus the position of
  the first atom with that identifier. The selection is toggled on the hit identifier with
  the control key and made exclusive without it; the drag does not depend on the result.
\<close>

theorem press_on_atom_starts_drag:
  assumes nobutton: "find (overButton env (float_of_int mx, float_of_int my)) [0..<length (hover st)] = None"
    and canvas: "\<not> float_of_int mx < SIDEBAR_W"
    and hit: "list_ex (isHit (float_of_int mx, float_of_int my)) (atoms st)"
    and ids: "list_all (\<lambda>a. id_atom a \<noteq> - 1) (atoms st)"
  shows "dragging (handleEvent env (MouseButtonPressed Left mx my) st)
    \<and> draggingId (handleEvent env (MouseButtonPressed Left mx my) st)
        = id_atom (last (filter (isHit (float_of_int mx, float_of_int my)) (atoms st)))
    \<and> map_option (\<lambda>a. vsub (float_of_int mx, float_of_int my) (pos a))
          (find (\<lambda>a. id_atom a = draggingId (handleEvent env (MouseButtonPressed Left mx my) st))
             (atoms st))
        = Some (dragOffset (handleEvent env (MouseButtonPressed Left mx my) st))
    \<and> atoms (handleEvent env (MouseButtonPressed Left mx my) st)
        = (if ctrl env
           then map (\<lambda>a. if id_atom a = pickAtom (float_of_int mx, float_of_int my) (atoms st)
                          then a\<lparr>selected := \<not> selected a\<rparr> else a) (atoms st)
           else map (\<lambda>a. a\<lparr>selected := (id_atom a = pickAtom (float_of_int mx, float_of_int my) (atoms st))\<rparr>)
                  (atoms st))"
proof -
  define m where "m = (float_of_int mx, float_of_int my)"
  define h where "h = last (filter (isHit m) (atoms st))"
  have ne: "filter (isHit m) (atoms st) \<noteq> []"
    using hit by (auto simp: m_def list_ex_iff filter_empty_conv)
  then have "h \<in> set (filter (isHit m) (atoms st))"
    unfolding h_def by (rule last_in_set)
  then have hin: "h \<in> set (atoms st)" by simp
  have pick: "pickAtom m (atoms st) = id_atom h"
    using ne by (simp add: pickAtom_last h_def)
  have hid: "id_atom h \<noteq> - 1"
    using ids hin by (simp add: list_all_iff)
  from find_id_exists [OF hin] obtain b where b: "find (\<lambda>c. id_atom c = id_atom h) (atoms st) = Some b"
    by blast
  have f1: "find (\<lambda>a. id_atom a = id_atom h)
              (map (\<lambda>a. if id_atom a = id_atom h then a\<lparr>selected := \<not> selected a\<rparr> else a) (atoms st))
            = Some (b\<lparr>selected := \<not> selected b\<rparr>)"
  proof -
    have "find (\<lambda>a. id_atom a = id_atom h)
              (map (\<lambda>a. if id_atom a = id_atom h then a\<lparr>selected := \<not> selected a\<rparr> else a) (atoms st))
          = map_option (\<lambda>a. if id_atom a = id_atom h then a\<lparr>selected := \<not> selected a\<rparr> else a)
              (find (\<lambda>a. id_atom a = id_atom h) (atoms st))"
      by (rule find_map_id) simp
    moreover have "id_atom b = id_atom h"
      using b by (auto simp: find_Some_iff)
    ultimately show ?thesis using b by simp
  qed
  have f2: "find (\<lambda>a. id_atom a = id_atom h)
              (map (\<lambda>a. a\<lparr>selected := (id_atom a = id_atom h)\<rparr>) (atoms st))
            = Some (b\<lparr>selected := (id_atom b = id_atom h)\<rparr>)"
    using find_map_id [of "\<lambda>a. a\<lparr>selected := (id_atom a = id_atom h)\<rparr>" "id_atom h" "atoms st"] b
    by simp
  have ev: "handleEvent env (MouseButtonPressed Left mx my) st = canvasClick env m st"
    using nobutton canvas by (simp add: onLeftPressed_def Let_def m_def)
  show ?thesis
    unfolding ev m_def [symmetric] h_def [symmetric]
    using hid b
    by (cases "ctrl env") (simp_all add: canvasClick_def Let_def pick f1 f2)
qed

theorem press_on_atom_starts_drag_witness:
  "dragging (handleEvent (demoEnv\<lparr>ctrl := True\<rparr>) (MouseButtonPressed Left 400 300) stateAB)
   \<and> draggingId (handleEvent (demoEnv\<lparr>ctrl := True\<rparr>) (MouseButtonPressed Left 400 300) stateAB) = 1
   \<and> dragOffset (handleEvent (demoEnv\<lparr>ctrl := True\<rparr>) (MouseButtonPressed Left 400 300) stateAB) = (0, 0)
   \<and> atoms (handleEvent (demoEnv\<lparr>ctrl := True\<rparr>) (MouseButtonPressed Left 400 300) stateAB)
       = [atomA\<lparr>selected := False\<rparr>, atomB]"
proof -
  have hitA: "isHit (400, 300) atomA"
    by (simp add: isHit_def atomA_def length_v_def vsub_def float_ops)
  have hitB: "\<not> isHit (400, 300) atomB"
    by (simp add: isHit_def atomB_def length_v_def vsub_def float_ops sqrt_40000)
  have m: "float_of_int 400 = 400" "float_of_int 300 = 300"
    by (simp_all add: float_of_int_def)
  have nb: "find (overButton (demoEnv\<lparr>ctrl := True\<rparr>) (float_of_int 400, float_of_int 300))
              [0..<length (hover stateAB)] = None"
    by (simp add: m stateAB_def initState_def upt_8 demoEnv_def buttonBox_def float_ops)
  have cv: "\<not> float_of_int 400 < SIDEBAR_W" by (simp add: m SIDEBAR_W_def)
  have ex: "list_ex (isHit (float_of_int 400, float_of_int 300)) (atoms stateAB)"
    using hitA by (simp add: m stateAB_def)
  have ids: "list_all (\<lambda>a. id_atom a \<noteq> - 1) (atoms stateAB)"
    by (simp add: stateAB_def atomA_def atomB_def)
  have p: "pickAtom (400, 300) [atomA, atomB] = 1"
    using hitA hitB by (simp add: pickAtom_def atomA_def)
  have f: "filter (isHit (400, 300)) [atomA, atomB] = [atomA]"
    using hitA hitB by simp
  have i: "id_atom atomA = 1" "id_atom atomB = 2" "pos atomA = (400, 300)" "selected atomA"
    by (simp_all add: atomA_def atomB_def)
  have c: "ctrl (demoEnv\<lparr>ctrl := True\<rparr>)" by simp
  have v: "vsub (400, 300) (400, 300) = (0, 0)"
    by (simp add: vsub_def float_ops)
  have a: "atoms stateAB = [atomA, atomB]" by (simp add: stateAB_def)
  from press_on_atom_starts_drag [OF nb cv ex ids]
  show ?thesis
    unfolding m a f p c
    by (auto simp: i v)
qed

end
